theory Spec2Isabelle
  imports Main "HOL-Library.Sublist"
begin

section \<open>Strings\<close>

text \<open>
  A JavaScript string is a sequence of UTF-16 code units. It is modelled by \<open>string\<close>;
  a \<open>char\<close> stands for the code unit of the same number, so the model covers text whose
  code units are below 256. The white space of \<open>String.prototype.trim\<close> and of the
  regular expression class \<open>\s\<close> in that range is TAB, LF, VT, FF, CR, SPACE and NBSP.
\<close>

definition isSpace :: "char \<Rightarrow> bool" where
  "isSpace c = (c = CHR 0x09 \<or> c = CHR 0x0A \<or> c = CHR 0x0B \<or> c = CHR 0x0C \<or> c = CHR 0x0D
     \<or> c = CHR 0x20 \<or> c = CHR 0xA0)"

text \<open>\<open>s.trim()\<close>\<close>

definition trim :: "string \<Rightarrow> string" where
  "trim s = rev (dropWhile isSpace (rev (dropWhile isSpace s)))"

text \<open>\<open>s.split(c)\<close> for a separator of one character: never an empty array.\<close>

fun splitOn :: "char \<Rightarrow> string \<Rightarrow> string list" where
  "splitOn c [] = [[]]"
| "splitOn c (x # xs) =
     (if x = c then [] # splitOn c xs
      else (case splitOn c xs of [] \<Rightarrow> [[x]] | p # ps \<Rightarrow> (x # p) # ps))"

text \<open>
  \<open>s.split(sep)\<close> for a separator string: the pieces between the occurrences of
  \<open>sep\<close>, found from the left and not overlapping; an empty separator splits into the
  single code units.
\<close>

function splitStr :: "string \<Rightarrow> string \<Rightarrow> string list" where
  "splitStr sep s =
     (if sep = [] then map (\<lambda>c. [c]) s
      else if s = [] then [[]]
      else if prefix sep s then [] # splitStr sep (drop (length sep) s)
      else (case splitStr sep (tl s) of [] \<Rightarrow> [[hd s]] | p # ps \<Rightarrow> (hd s # p) # ps))"
  by pat_completeness auto
termination
  by (relation "measure (\<lambda>(sep, s). length s)") auto

text \<open>\<open>parts.join(sep)\<close> on an array of strings.\<close>

fun joinStr :: "string \<Rightarrow> string list \<Rightarrow> string" where
  "joinStr sep [] = []"
| "joinStr sep [x] = x"
| "joinStr sep (x # y # ys) = x @ sep @ joinStr sep (y # ys)"

text \<open>\<open>s.endsWith(t)\<close>\<close>

definition endsWith :: "string \<Rightarrow> string \<Rightarrow> bool" where
  "endsWith s t = suffix t s"

section \<open>Numbers\<close>

text \<open>
  The program never computes with the numbers of the data: it tests their type and
  prints them. A number of the data is modelled by an integer (a JSON integer literal
  in the range where JavaScript prints every digit, below \<open>10^21\<close> in absolute value).
\<close>

definition digitChars :: string where
  "digitChars = ''0123456789''"

function natToString :: "nat \<Rightarrow> string" where
  "natToString n =
     (if n < 10 then [digitChars ! n] else natToString (n div 10) @ [digitChars ! (n mod 10)])"
  by pat_completeness auto
termination
  by (relation "measure (\<lambda>n. n)") auto

definition numberToString :: "int \<Rightarrow> string" where
  "numberToString i = (if i < 0 then CHR ''-'' # natToString (nat (- i)) else natToString (nat i))"

definition isDigit :: "char \<Rightarrow> bool" where
  "isDigit c = (c \<in> set digitChars)"

definition digitValue :: "char \<Rightarrow> nat" where
  "digitValue c = of_char c - 48"

definition digitsToNat :: "string \<Rightarrow> nat" where
  "digitsToNat ds = foldl (\<lambda>n c. 10 * n + digitValue c) 0 ds"

section \<open>Values\<close>

text \<open>
  The substitution tree is what \<open>JSON.parse\<close> returns: a \<open>json\<close> value. An object is
  the list of its own properties in enumeration order (the keys are distinct; a lookup
  takes the first entry of a key). Path lookup can leave the tree, because the \<open>in\<close>
  operator and property access follow the prototype chain: it can reach a built-in
  function (\<open>Builtin\<close>, named by the property it was read from), \<open>Object.prototype\<close>
  and \<open>Array.prototype\<close>. \<open>Undefined\<close> is the sentinel for "not found".
\<close>

datatype json =
    JNull
  | JBool bool
  | JNum int
  | JStr string
  | JArr "json list"
  | JObj "(string \<times> json) list"

datatype jsval =
    Undefined
  | Data json
  | Builtin string
  | ObjectPrototype
  | ArrayPrototype

text \<open>
  What the host (the JavaScript engine and its library) fixes and the program only uses:
  the names of the function-valued properties of \<open>Object.prototype\<close> and of
  \<open>Array.prototype\<close>, the text \<open>String(f)\<close> of a built-in function, the Unicode case
  mappings, and \<open>path.dirname\<close> and \<open>path.join\<close>.
\<close>

record host =
  objectMethods :: "string list"
  arrayMethods :: "string list"
  functionText :: "string \<Rightarrow> string"
  toLowerCase :: "string \<Rightarrow> string"
  toUpperCase :: "string \<Rightarrow> string"
  dirname :: "string \<Rightarrow> string"
  joinPath :: "string \<Rightarrow> string \<Rightarrow> string"

section \<open>Path lookup\<close>

text \<open>
  An array index is a canonical decimal numeral: \<open>"0"\<close>, or digits that do not start
  with \<open>0\<close>.
\<close>

definition arrayIndex :: "string \<Rightarrow> nat option" where
  "arrayIndex k =
     (if k \<noteq> [] \<and> list_all isDigit k \<and> (k = ''0'' \<or> hd k \<noteq> CHR ''0'')
      then Some (digitsToNat k) else None)"

text \<open>
  The properties an object inherits from \<open>Object.prototype\<close>: the accessor \<open>__proto__\<close>,
  which returns the prototype \<open>proto\<close> of the object it is read from, and the methods.
\<close>

definition objectChain :: "host \<Rightarrow> jsval \<Rightarrow> string \<Rightarrow> jsval option" where
  "objectChain h proto key =
     (if key = ''__proto__'' then Some proto
      else if key \<in> set (objectMethods h) then Some (Builtin key)
      else None)"

definition arrayChain :: "host \<Rightarrow> jsval \<Rightarrow> string \<Rightarrow> jsval option" where
  "arrayChain h proto key =
     (if key \<in> set (arrayMethods h) then Some (Builtin key) else objectChain h proto key)"

text \<open>
  \<open>key in acc ? acc[key] : undefined\<close> for an object \<open>acc\<close>: \<open>None\<close> when \<open>key in acc\<close>
  is false. Own properties come first: the keys of a mapping; the indices and
  \<open>length\<close> of an array.
\<close>

fun property :: "host \<Rightarrow> jsval \<Rightarrow> string \<Rightarrow> jsval option" where
  "property h (Data (JObj kvs)) key =
     (case map_of kvs key of
        Some v \<Rightarrow> Some (Data v)
      | None \<Rightarrow> objectChain h ObjectPrototype key)"
| "property h (Data (JArr xs)) key =
     (case arrayIndex key of
        Some i \<Rightarrow> if i < length xs then Some (Data (xs ! i)) else arrayChain h ArrayPrototype key
      | None \<Rightarrow>
          if key = ''length'' then Some (Data (JNum (int (length xs))))
          else arrayChain h ArrayPrototype key)"
| "property h ObjectPrototype key = objectChain h (Data JNull) key"
| "property h ArrayPrototype key =
     (if key = ''length'' then Some (Data (JNum 0)) else arrayChain h ObjectPrototype key)"
| "property h v key = None"

text \<open>\<open>acc && typeof acc === 'object'\<close>: \<open>null\<close> has that type but is falsy.\<close>

fun isObject :: "jsval \<Rightarrow> bool" where
  "isObject (Data (JObj kvs)) = True"
| "isObject (Data (JArr xs)) = True"
| "isObject ObjectPrototype = True"
| "isObject ArrayPrototype = True"
| "isObject v = False"

text \<open>The reducer of \<open>get\<close>, and \<open>get\<close>: the reduction over the path's segments.\<close>

definition getStep :: "host \<Rightarrow> jsval \<Rightarrow> string \<Rightarrow> jsval" where
  "getStep h acc key =
     (if isObject acc then (case property h acc key of Some v \<Rightarrow> v | None \<Rightarrow> Undefined)
      else Undefined)"

definition get :: "host \<Rightarrow> jsval \<Rightarrow> string \<Rightarrow> jsval" where
  "get h obj path = foldl (getStep h) obj (splitOn (CHR ''.'') path)"

section \<open>Errors\<close>

text \<open>
  The program throws \<open>new Error(message)\<close> itself; the string conversion of the
  language throws a \<open>TypeError\<close>. A failure is a value: \<open>Inl\<close> of the error.
\<close>

datatype error = Error string | TypeError

section \<open>String conversion: \<open>String(value)\<close>\<close>

text \<open>
  Primitives print as themselves. An object is converted by the first of its
  \<open>toString\<close> and \<open>valueOf\<close> properties that is a function and returns a primitive.
  A mapping without a key \<open>toString\<close> inherits \<open>Object.prototype.toString\<close> and prints
  as \<open>[object Object]\<close>; a key \<open>toString\<close> of the data hides it with a value that is no
  function, \<open>valueOf\<close> (own, or the inherited one, which returns the object) gives no
  primitive, and the conversion throws. An array prints by \<open>Array.prototype.join\<close>:
  its elements' strings, \<open>null\<close> as the empty string, separated by commas.
\<close>

fun stringOf :: "json \<Rightarrow> error + string"
  and stringOfElements :: "json list \<Rightarrow> error + string list" where
  "stringOf JNull = Inr ''null''"
| "stringOf (JBool b) = Inr (if b then ''true'' else ''false'')"
| "stringOf (JNum n) = Inr (numberToString n)"
| "stringOf (JStr s) = Inr s"
| "stringOf (JObj kvs) =
     (if map_of kvs ''toString'' \<noteq> None then Inl TypeError else Inr ''[object Object]'')"
| "stringOf (JArr xs) =
     (case stringOfElements xs of Inl e \<Rightarrow> Inl e | Inr ps \<Rightarrow> Inr (joinStr '','' ps))"
| "stringOfElements [] = Inr []"
| "stringOfElements (x # xs) =
     (case (if x = JNull then Inr [] else stringOf x) of
        Inl e \<Rightarrow> Inl e
      | Inr p \<Rightarrow> (case stringOfElements xs of Inl e \<Rightarrow> Inl e | Inr ps \<Rightarrow> Inr (p # ps)))"

fun toStringJS :: "host \<Rightarrow> jsval \<Rightarrow> error + string" where
  "toStringJS h Undefined = Inr ''undefined''"
| "toStringJS h (Data j) = stringOf j"
| "toStringJS h (Builtin name) = Inr (functionText h name)"
| "toStringJS h ObjectPrototype = Inr ''[object Object]''"
| "toStringJS h ArrayPrototype = Inr []"

section \<open>\<open>JSON.stringify(value, null, indent)\<close>\<close>

definition hexChars :: string where
  "hexChars = ''0123456789abcdef''"

definition quoteChar :: "char \<Rightarrow> string" where
  "quoteChar c =
     (if c = CHR 0x22 then [CHR 0x5C, CHR 0x22]
      else if c = CHR 0x5C then [CHR 0x5C, CHR 0x5C]
      else if c = CHR 0x08 then [CHR 0x5C, CHR ''b'']
      else if c = CHR 0x09 then [CHR 0x5C, CHR ''t'']
      else if c = CHR 0x0A then [CHR 0x5C, CHR ''n'']
      else if c = CHR 0x0C then [CHR 0x5C, CHR ''f'']
      else if c = CHR 0x0D then [CHR 0x5C, CHR ''r'']
      else if (of_char c :: nat) < 32
        then [CHR 0x5C, CHR ''u'', CHR ''0'', CHR ''0'',
              hexChars ! (of_char c div 16), hexChars ! (of_char c mod 16)]
      else [c])"

definition quoteJSON :: "string \<Rightarrow> string" where
  "quoteJSON s = CHR 0x22 # concat (map quoteChar s) @ [CHR 0x22]"

text \<open>
  The wrapper of an array or an object around its serialised parts: \<open>gap\<close> is the
  indentation unit, \<open>ind\<close> the indentation of the enclosing level.
\<close>

definition wrapParts :: "string \<Rightarrow> string \<Rightarrow> string \<Rightarrow> string \<Rightarrow> string list \<Rightarrow> string" where
  "wrapParts opening closing gap ind parts =
     (if parts = [] then opening @ closing
      else if gap = [] then opening @ joinStr '','' parts @ closing
      else opening @ [CHR 0x0A] @ (ind @ gap)
           @ joinStr ([CHR '','', CHR 0x0A] @ (ind @ gap)) parts
           @ [CHR 0x0A] @ ind @ closing)"

fun serialize :: "string \<Rightarrow> string \<Rightarrow> json \<Rightarrow> string"
  and serializeElements :: "string \<Rightarrow> string \<Rightarrow> json list \<Rightarrow> string list"
  and serializeMembers :: "string \<Rightarrow> string \<Rightarrow> (string \<times> json) list \<Rightarrow> string list" where
  "serialize gap ind JNull = ''null''"
| "serialize gap ind (JBool b) = (if b then ''true'' else ''false'')"
| "serialize gap ind (JNum n) = numberToString n"
| "serialize gap ind (JStr s) = quoteJSON s"
| "serialize gap ind (JArr xs) =
     wrapParts ''['' '']'' gap ind (serializeElements gap (ind @ gap) xs)"
| "serialize gap ind (JObj kvs) =
     wrapParts ''{'' ''}'' gap ind (serializeMembers gap (ind @ gap) kvs)"
| "serializeElements gap ind [] = []"
| "serializeElements gap ind (x # xs) = serialize gap ind x # serializeElements gap ind xs"
| "serializeMembers gap ind [] = []"
| "serializeMembers gap ind ((k, v) # kvs) =
     (quoteJSON k @ '':'' @ (if gap = [] then [] else '' '') @ serialize gap ind v)
       # serializeMembers gap ind kvs"

text \<open>
  A numeric \<open>indent\<close> gives a gap of that many spaces, at most 10, and none below 1.
  A function and \<open>undefined\<close> have no JSON text: the result is \<open>undefined\<close>.
\<close>

definition gapOf :: "int \<Rightarrow> string" where
  "gapOf indent = replicate (nat (min 10 indent)) (CHR '' '')"

fun jsonStringify :: "jsval \<Rightarrow> int \<Rightarrow> jsval" where
  "jsonStringify Undefined indent = Undefined"
| "jsonStringify (Builtin name) indent = Undefined"
| "jsonStringify (Data j) indent = Data (JStr (serialize (gapOf indent) [] j))"
| "jsonStringify ObjectPrototype indent = Data (JStr ''{}'')"
| "jsonStringify ArrayPrototype indent = Data (JStr ''[]'')"

section \<open>\<open>parseInt(s, 10)\<close>\<close>

text \<open>
  Leading white space and one sign are skipped, then the longest run of decimal digits
  is read; \<open>None\<close> is \<open>NaN\<close> (no digit).
\<close>

definition parseInt :: "string \<Rightarrow> int option" where
  "parseInt s =
     (let t = dropWhile isSpace s;
          negative = (t \<noteq> [] \<and> hd t = CHR ''-'');
          r = (if t \<noteq> [] \<and> (hd t = CHR ''-'' \<or> hd t = CHR ''+'') then tl t else t);
          ds = takeWhile isDigit r
      in if ds = [] then None
         else Some (if negative then - int (digitsToNat ds) else int (digitsToNat ds)))"

section \<open>The modifier pipeline: \<open>applyModifiers\<close>\<close>

text \<open>The \<open>switch\<close> over the string modifiers; an unknown token changes nothing.\<close>

definition stringModifier :: "host \<Rightarrow> string \<Rightarrow> string \<Rightarrow> string" where
  "stringModifier h m s =
     (if m = ''lower'' then toLowerCase h s
      else if m = ''upper'' then toUpperCase h s
      else if m = ''_'' then map (\<lambda>c. if c = CHR ''-'' then CHR ''_'' else c) s
      else if m = ''-'' then map (\<lambda>c. if c = CHR ''_'' then CHR ''-'' else c) s
      else s)"

text \<open>
  The \<open>for\<close> loop over the index \<open>i\<close>. At \<open>json\<close> the next token, when there is one and
  \<open>parseInt\<close> reads a number from it, is the indentation and is skipped (\<open>++i\<close>).
\<close>

function applyLoop :: "host \<Rightarrow> string list \<Rightarrow> nat \<Rightarrow> jsval \<Rightarrow> jsval" where
  "applyLoop h modifiers i result =
     (if i < length modifiers then
        (if modifiers ! i = ''json'' then
           (case (if i + 1 < length modifiers then parseInt (modifiers ! (i + 1)) else None) of
              Some indent \<Rightarrow> applyLoop h modifiers (i + 2) (jsonStringify result indent)
            | None \<Rightarrow> applyLoop h modifiers (i + 1) (jsonStringify result 2))
         else (case result of
              Data (JStr s) \<Rightarrow>
                applyLoop h modifiers (i + 1) (Data (JStr (stringModifier h (modifiers ! i) s)))
            | _ \<Rightarrow> applyLoop h modifiers (i + 1) result))
      else result)"
  by pat_completeness auto
termination
  by (relation "measure (\<lambda>(h, modifiers, i, result). length modifiers - i)") auto

definition applyModifiers :: "host \<Rightarrow> jsval \<Rightarrow> string list \<Rightarrow> jsval" where
  "applyModifiers h v modifiers = applyLoop h modifiers 0 v"

section \<open>The expression resolver: \<open>resolveExpression\<close>\<close>

text \<open>
  The \<open>for\<close> loop over the fallbacks: the first candidate whose path lookup is not
  \<open>undefined\<close> sets \<open>resolvedValue\<close> and breaks; otherwise \<open>resolvedValue\<close> stays
  \<open>undefined\<close>.
\<close>

fun fallbackLoop :: "host \<Rightarrow> json \<Rightarrow> string list \<Rightarrow> jsval" where
  "fallbackLoop h substitutions [] = Undefined"
| "fallbackLoop h substitutions (fallback # rest) =
     (case map trim (splitOn (CHR '':'') fallback) of
        [] \<Rightarrow> fallbackLoop h substitutions rest
      | path # modifiers \<Rightarrow>
          (let v = get h (Data substitutions) path in
           if v \<noteq> Undefined then applyModifiers h v modifiers
           else fallbackLoop h substitutions rest))"

text \<open>
  The callback of the secondary substitution: a string or a number is spliced in,
  anything else throws.
\<close>

definition innerError :: "string \<Rightarrow> string \<Rightarrow> string \<Rightarrow> error" where
  "innerError innerPath expr sourcePath =
     Error (''Variable '' @ [CHR 0x27] @ ''@'' @ trim innerPath @ ''@'' @ [CHR 0x27]
            @ '' inside default for '' @ [CHR 0x27] @ expr @ [CHR 0x27]
            @ '' in '' @ [CHR 0x27] @ sourcePath @ [CHR 0x27]
            @ '' must resolve to a string or number.'')"

definition innerReplace :: "host \<Rightarrow> string \<Rightarrow> json \<Rightarrow> string \<Rightarrow> string \<Rightarrow> error + string" where
  "innerReplace h expr substitutions sourcePath innerPath =
     (case get h (Data substitutions) (trim innerPath) of
        Data (JStr s) \<Rightarrow> Inr s
      | Data (JNum n) \<Rightarrow> Inr (numberToString n)
      | _ \<Rightarrow> Inl (innerError innerPath expr sourcePath))"

text \<open>
  \<open>defaultValue.replace(/@([^@]+)@/g, callback)\<close>, scanning from the left. At an \<open>@\<close>
  the greedy class takes every following character that is not \<open>@\<close>; the pattern
  matches when that run is not empty and an \<open>@\<close> closes it (giving characters back
  cannot help: the character after a shorter run is not \<open>@\<close>). The scan goes on after the
  closing \<open>@\<close>; where the pattern does not match, the character is kept.
\<close>

function replaceDefault :: "host \<Rightarrow> string \<Rightarrow> json \<Rightarrow> string \<Rightarrow> string \<Rightarrow> error + string" where
  "replaceDefault h expr substitutions sourcePath str =
     (case str of
        [] \<Rightarrow> Inr []
      | c # cs \<Rightarrow>
          (let inner = takeWhile (\<lambda>x. x \<noteq> CHR ''@'') cs;
               after = dropWhile (\<lambda>x. x \<noteq> CHR ''@'') cs
           in if c = CHR ''@'' \<and> inner \<noteq> [] \<and> after \<noteq> [] then
                (case innerReplace h expr substitutions sourcePath inner of
                   Inl e \<Rightarrow> Inl e
                 | Inr r \<Rightarrow>
                     (case replaceDefault h expr substitutions sourcePath (tl after) of
                        Inl e \<Rightarrow> Inl e
                      | Inr out \<Rightarrow> Inr (r @ out)))
              else
                (case replaceDefault h expr substitutions sourcePath cs of
                   Inl e \<Rightarrow> Inl e
                 | Inr out \<Rightarrow> Inr (c # out))))"
  by pat_completeness auto
termination
proof (relation "measure (\<lambda>(h, expr, substitutions, sourcePath, str). length str)")
  show "wf (measure (\<lambda>(h, expr, substitutions, sourcePath, str). length str))"
    by simp
next
  fix h :: host and expr :: string and substitutions :: json and sourcePath str :: string
    and c :: char and cs inner after r :: string
  assume "after = dropWhile (\<lambda>x. x \<noteq> CHR ''@'') cs" and "str = c # cs"
  then show "((h, expr, substitutions, sourcePath, tl after), h, expr, substitutions, sourcePath, str)
      \<in> measure (\<lambda>(h, expr, substitutions, sourcePath, str). length str)"
    using length_dropWhile_le [of "\<lambda>x. x \<noteq> CHR ''@''" cs] by (cases after) auto
next
  fix h :: host and expr :: string and substitutions :: json and sourcePath str :: string
    and c :: char and cs :: string
  assume "str = c # cs"
  then show "((h, expr, substitutions, sourcePath, cs), h, expr, substitutions, sourcePath, str)
      \<in> measure (\<lambda>(h, expr, substitutions, sourcePath, str). length str)"
    by simp
qed

definition unresolvedError :: "string list \<Rightarrow> string \<Rightarrow> error" where
  "unresolvedError fallbacks sourcePath =
     Error (''Variable '' @ [CHR 0x27] @ joinStr '' | '' fallbacks @ [CHR 0x27]
            @ '' could not be resolved in file '' @ [CHR 0x27] @ sourcePath @ [CHR 0x27] @ ''.'')"

text \<open>
  The parts of the expression: the expression is split at every \<open>=\<close> and every part is
  trimmed; the first part is the fallback spec, the others joined by \<open>=\<close> and trimmed
  are the default text (\<open>None\<close> for \<open>undefined\<close>, when there is no other part).
\<close>

definition exprParts :: "string \<Rightarrow> string list" where
  "exprParts expr = map trim (splitOn (CHR ''='') expr)"

definition fallbacksOf :: "string \<Rightarrow> string list" where
  "fallbacksOf expr = map trim (splitOn (CHR ''|'') (hd (exprParts expr)))"

definition defaultValueOf :: "string \<Rightarrow> string option" where
  "defaultValueOf expr =
     (let defaultParts = tl (exprParts expr)
      in if length defaultParts > 0 then Some (trim (joinStr ''='' defaultParts)) else None)"

text \<open>
  The second half of \<open>resolveExpression\<close>, from \<open>if (resolvedValue === undefined)\<close> to
  the \<open>return\<close>.
\<close>

definition finishExpression :: "host \<Rightarrow> string \<Rightarrow> json \<Rightarrow> string \<Rightarrow> jsval \<Rightarrow> error + string" where
  "finishExpression h expr substitutions sourcePath resolvedValue =
     (if resolvedValue = Undefined then
        (case defaultValueOf expr of
           Some defaultValue \<Rightarrow> replaceDefault h expr substitutions sourcePath defaultValue
         | None \<Rightarrow> Inl (unresolvedError (fallbacksOf expr) sourcePath))
      else toStringJS h resolvedValue)"

definition resolveExpression :: "host \<Rightarrow> string \<Rightarrow> json \<Rightarrow> string \<Rightarrow> error + string" where
  "resolveExpression h expr substitutions sourcePath =
     finishExpression h expr substitutions sourcePath
       (fallbackLoop h substitutions (fallbacksOf expr))"

section \<open>The template pattern\<close>

text \<open>
  The regular expression \<open>/{{\s*([^}]+?)\s*}}/g\<close>, as the backtracking matcher runs it.
  \<open>firstSome f xs\<close> is the first alternative, in the order tried, that succeeds.
\<close>

fun firstSome :: "('a \<Rightarrow> 'b option) \<Rightarrow> 'a list \<Rightarrow> 'b option" where
  "firstSome f [] = None"
| "firstSome f (x # xs) = (case f x of Some y \<Rightarrow> Some y | None \<Rightarrow> firstSome f xs)"

text \<open>
  The tail \<open>\s*}}\<close>: the greedy star takes \<open>m\<close> white-space characters, the most
  first, and \<open>}}\<close> must follow. The result is the length matched.
\<close>

definition matchClose :: "string \<Rightarrow> nat option" where
  "matchClose s =
     firstSome (\<lambda>m. if prefix ''}}'' (drop m s) then Some (m + 2) else None)
       (rev [0 ..< Suc (length (takeWhile isSpace s))])"

text \<open>
  The group \<open>([^}]+?)\<close> and the tail: the lazy plus takes \<open>n\<close> characters that are not
  \<open>}\<close>, the fewest first and at least one. The result is \<open>n\<close> and the length of the tail.
\<close>

definition matchGroup :: "string \<Rightarrow> (nat \<times> nat) option" where
  "matchGroup s =
     firstSome (\<lambda>n. map_option (\<lambda>t. (n, t)) (matchClose (drop n s)))
       [1 ..< Suc (length (takeWhile (\<lambda>c. c \<noteq> CHR ''}'') s))]"

text \<open>
  The whole pattern at the start of \<open>s\<close>: \<open>{{\<close>, then the greedy star takes \<open>k\<close>
  white-space characters, the most first. The result is the matched text, the text of
  group 1 and the rest of \<open>s\<close> after the match.
\<close>

definition matchHere :: "string \<Rightarrow> (string \<times> string \<times> string) option" where
  "matchHere s =
     (if prefix ''{{'' s then
        map_option
          (\<lambda>(k, n, t). (take (2 + k + n + t) s, take n (drop (2 + k) s), drop (2 + k + n + t) s))
          (firstSome (\<lambda>k. map_option (\<lambda>(n, t). (k, n, t)) (matchGroup (drop (2 + k) s)))
             (rev [0 ..< Suc (length (takeWhile isSpace (drop 2 s)))]))
      else None)"

lemma firstSome_in: "firstSome f xs = Some y \<Longrightarrow> \<exists>x \<in> set xs. f x = Some y"
  by (induction xs) (auto split: option.splits)

lemma matchHere_shorter:
  assumes "matchHere s = Some (full, expr, rest)"
  shows "length rest < length s"
proof -
  from assms have p: "prefix ''{{'' s"
    by (auto simp: matchHere_def split: if_splits)
  then have "2 \<le> length s"
    by (auto simp: prefix_def)
  moreover from assms p obtain k n t where "rest = drop (2 + k + n + t) s"
    by (auto simp: matchHere_def)
  ultimately show ?thesis by simp
qed

text \<open>
  \<open>content.matchAll(regex)\<close>: the matches from the left; after a match the scan goes on
  behind it, and where the pattern does not match it moves one character on.
\<close>

function matchAll :: "string \<Rightarrow> (string \<times> string) list" where
  "matchAll s =
     (if s = [] then []
      else (case matchHere s of
              Some (full, expr, rest) \<Rightarrow> (full, expr) # matchAll rest
            | None \<Rightarrow> matchAll (tl s)))"
  by pat_completeness auto
termination
  by (relation "measure length") (auto dest: matchHere_shorter)

section \<open>The tree copier: \<open>copyAndSubstitute\<close>\<close>

text \<open>
  The first loop of the template branch: every match is resolved, in order, into a
  pair of the matched text and its replacement; the first failure is thrown.
\<close>

fun resolveMatches :: "host \<Rightarrow> json \<Rightarrow> string \<Rightarrow> (string \<times> string) list
    \<Rightarrow> error + (string \<times> string) list" where
  "resolveMatches h substitutions source [] = Inr []"
| "resolveMatches h substitutions source ((fullMatch, expr) # ms) =
     (case resolveExpression h expr substitutions source of
        Inl e \<Rightarrow> Inl e
      | Inr replacement \<Rightarrow>
          (case resolveMatches h substitutions source ms of
             Inl e \<Rightarrow> Inl e
           | Inr reps \<Rightarrow> Inr ((fullMatch, replacement) # reps)))"

text \<open>
  The second loop: \<open>content = content.split(rep.find).join(rep.replace)\<close> for every
  replacement in order, each on the content the earlier ones left.
\<close>

fun applyReplacements :: "string \<Rightarrow> (string \<times> string) list \<Rightarrow> string" where
  "applyReplacements content [] = content"
| "applyReplacements content ((findText, replaceText) # reps) =
     applyReplacements (joinStr replaceText (splitStr findText content)) reps"

definition substituteContent :: "host \<Rightarrow> json \<Rightarrow> string \<Rightarrow> string \<Rightarrow> error + string" where
  "substituteContent h substitutions source content =
     (case resolveMatches h substitutions source (matchAll content) of
        Inl e \<Rightarrow> Inl e
      | Inr replacements \<Rightarrow> Inr (applyReplacements content replacements))"

text \<open>
  The file system. What \<open>fs.stat\<close>, \<open>fs.readFile\<close> and \<open>fs.readdir\<close> find at the
  source path is a \<open>source\<close> tree; what the program does to the target is the list of
  its operations in order. The source path is taken to exist (\<open>fs.stat\<close> succeeds)
  and the operations on the target are taken to succeed.
\<close>

datatype source =
    File string
  | Directory "(string \<times> source) list"
  | Other

datatype operation =
    Mkdir string
  | WriteFile string string
  | CopyFile string string

definition finalTargetPath :: "string \<Rightarrow> string" where
  "finalTargetPath target =
     (if endsWith target ''.tmpl'' then take (length target - 5) target else target)"

text \<open>
  The result is the operations done and the error thrown, if one was: an error in an
  entry of a directory ends the whole run after the operations done so far.
\<close>

fun copyAndSubstitute :: "host \<Rightarrow> json \<Rightarrow> string \<Rightarrow> string \<Rightarrow> source
    \<Rightarrow> operation list \<times> error option"
  and copyEntries :: "host \<Rightarrow> json \<Rightarrow> string \<Rightarrow> string \<Rightarrow> (string \<times> source) list
    \<Rightarrow> operation list \<times> error option" where
  "copyAndSubstitute h substitutions source target (Directory entries) =
     (case copyEntries h substitutions source target entries of
        (ops, r) \<Rightarrow> (Mkdir target # ops, r))"
| "copyAndSubstitute h substitutions source target (File content) =
     (if endsWith source ''.tmpl'' then
        (case substituteContent h substitutions source content of
           Inl e \<Rightarrow> ([Mkdir (dirname h (finalTargetPath target))], Some e)
         | Inr out \<Rightarrow>
             ([Mkdir (dirname h (finalTargetPath target)),
               WriteFile (finalTargetPath target) out], None))
      else
        ([Mkdir (dirname h (finalTargetPath target)),
          CopyFile source (finalTargetPath target)], None))"
| "copyAndSubstitute h substitutions source target Other = ([], None)"
| "copyEntries h substitutions source target [] = ([], None)"
| "copyEntries h substitutions source target ((file, entry) # rest) =
     (case copyAndSubstitute h substitutions (joinPath h source file) (joinPath h target file) entry of
        (ops, Some e) \<Rightarrow> (ops, Some e)
      | (ops, None) \<Rightarrow>
          (case copyEntries h substitutions source target rest of
             (ops', r) \<Rightarrow> (ops @ ops', r)))"

section \<open>A host for evaluation\<close>

text \<open>
  A concrete host, used to run the model on examples: the methods of
  \<open>Object.prototype\<close> and some of \<open>Array.prototype\<close> by name, ASCII case mappings and
  POSIX paths without trailing separators.
\<close>

definition asciiLower :: "char \<Rightarrow> char" where
  "asciiLower c = (if 65 \<le> (of_char c :: nat) \<and> (of_char c :: nat) \<le> 90 then char_of (of_char c + 32 :: nat) else c)"

definition asciiUpper :: "char \<Rightarrow> char" where
  "asciiUpper c = (if 97 \<le> (of_char c :: nat) \<and> (of_char c :: nat) \<le> 122 then char_of (of_char c - 32 :: nat) else c)"

definition posixDirname :: "string \<Rightarrow> string" where
  "posixDirname p =
     (let d = rev (drop 1 (dropWhile (\<lambda>c. c \<noteq> CHR ''/'') (rev p)))
      in if CHR ''/'' \<notin> set p then ''.'' else if d = [] then ''/'' else d)"

definition testHost :: host where
  "testHost = \<lparr>
     objectMethods = [''constructor'', ''hasOwnProperty'', ''isPrototypeOf'',
       ''propertyIsEnumerable'', ''toLocaleString'', ''toString'', ''valueOf''],
     arrayMethods = [''constructor'', ''join'', ''map'', ''push'', ''toString''],
     functionText = (\<lambda>name. ''function '' @ name @ ''() { [native code] }''),
     toLowerCase = map asciiLower,
     toUpperCase = map asciiUpper,
     dirname = posixDirname,
     joinPath = (\<lambda>a b. a @ ''/'' @ b) \<rparr>"

section \<open>Notions of the specification\<close>

text \<open>
  The specification's "every segment of the path exists along a chain of mapping-typed
  values": the value that the segments lead to through own keys of mappings only.
  This definition follows the specification's words; \<open>get\<close> above is the code.
\<close>

fun mappingChain :: "json \<Rightarrow> string list \<Rightarrow> json option" where
  "mappingChain j [] = Some j"
| "mappingChain (JObj kvs) (k # ks) =
     (case map_of kvs k of Some v \<Rightarrow> mappingChain v ks | None \<Rightarrow> None)"
| "mappingChain j (k # ks) = None"

text \<open>
  The path and the modifier tokens of a fallback candidate, as the loop of
  \<open>resolveExpression\<close> splits it at \<open>:\<close>.
\<close>

definition pathOf :: "string \<Rightarrow> string" where
  "pathOf fallback = hd (map trim (splitOn (CHR '':'') fallback))"

definition modifiersOf :: "string \<Rightarrow> string list" where
  "modifiersOf fallback = tl (map trim (splitOn (CHR '':'') fallback))"

text \<open>
  The values whose string conversion succeeds: no mapping with an own key \<open>toString\<close>,
  at the top or as an element of an array at any depth.
\<close>

fun stringable :: "json \<Rightarrow> bool" where
  "stringable (JObj kvs) = (map_of kvs ''toString'' = None)"
| "stringable (JArr xs) = list_all stringable xs"
| "stringable j = True"

text \<open>The primitive values of the data.\<close>

fun primitive :: "json \<Rightarrow> bool" where
  "primitive (JArr xs) = False"
| "primitive (JObj kvs) = False"
| "primitive j = True"

text \<open>
  The specification's "the original content in which each occurrence matched by the
  pattern is replaced by its resolved value": the content is scanned as \<open>matchAll\<close>
  scans it, and every match is replaced where it stands. This definition follows the
  specification's words; \<open>substituteContent\<close> above is the code.
\<close>

function spliceContent :: "host \<Rightarrow> json \<Rightarrow> string \<Rightarrow> string \<Rightarrow> error + string" where
  "spliceContent h substitutions source s =
     (if s = [] then Inr []
      else (case matchHere s of
              Some (full, expr, rest) \<Rightarrow>
                (case resolveExpression h expr substitutions source of
                   Inl e \<Rightarrow> Inl e
                 | Inr r \<Rightarrow>
                     (case spliceContent h substitutions source rest of
                        Inl e \<Rightarrow> Inl e
                      | Inr out \<Rightarrow> Inr (r @ out)))
            | None \<Rightarrow>
                (case spliceContent h substitutions source (tl s) of
                   Inl e \<Rightarrow> Inl e
                 | Inr out \<Rightarrow> Inr (hd s # out))))"
  by pat_completeness auto

termination
  by (relation "measure (\<lambda>(h, substitutions, source, s). length s)")
    (auto dest: matchHere_shorter)

declare spliceContent.simps [simp del]

text \<open>
  A template in pieces: literal text and expressions \<open>{{e}}\<close>, \<open>e\<close> being all the text
  between the braces. A piece is well formed when a text has no \<open>{\<close> and an expression
  is not empty and has no brace inside.
\<close>

datatype piece = Text string | Expression string

fun render :: "piece \<Rightarrow> string" where
  "render (Text t) = t"
| "render (Expression e) = ''{{'' @ e @ ''}}''"

fun wellFormed :: "piece \<Rightarrow> bool" where
  "wellFormed (Text t) = (CHR ''{'' \<notin> set t)"
| "wellFormed (Expression e) = (e \<noteq> [] \<and> CHR ''{'' \<notin> set e \<and> CHR ''}'' \<notin> set e)"

text \<open>The text of group 1 when the pattern matches \<open>{{e}}\<close>.\<close>

definition captureOf :: "string \<Rightarrow> string" where
  "captureOf e = (case matchHere (''{{'' @ e @ ''}}'') of Some (full, expr, rest) \<Rightarrow> expr | None \<Rightarrow> [])"

text \<open>The expressions of a template, in order.\<close>

fun expressionsOf :: "piece list \<Rightarrow> string list" where
  "expressionsOf [] = []"
| "expressionsOf (Text t # ps) = expressionsOf ps"
| "expressionsOf (Expression e # ps) = e # expressionsOf ps"

text \<open>
  One pass of the second loop, and all of them, on a template in pieces: the
  expressions equal to \<open>e\<close>, or among \<open>es\<close>, become the text of their resolved value.
\<close>

fun substPiece :: "string \<Rightarrow> string \<Rightarrow> piece \<Rightarrow> piece" where
  "substPiece e r (Text t) = Text t"
| "substPiece e r (Expression e') = (if e' = e then Text r else Expression e')"

text \<open>The resolved value of the expression \<open>{{e}}\<close> (the empty text when it fails).\<close>

definition replacementOf :: "host \<Rightarrow> json \<Rightarrow> string \<Rightarrow> string \<Rightarrow> string" where
  "replacementOf h D source e =
     (case resolveExpression h (captureOf e) D source of Inr r \<Rightarrow> r | Inl err \<Rightarrow> [])"

fun resolvePiece :: "(string \<Rightarrow> string) \<Rightarrow> string list \<Rightarrow> piece \<Rightarrow> piece" where
  "resolvePiece rho es (Text t) = Text t"
| "resolvePiece rho es (Expression e) = (if e \<in> set es then Text (rho e) else Expression e)"

section \<open>Path lookup: properties\<close>

lemma splitOn_not_Nil: "splitOn c s \<noteq> []"
  by (induction s) (auto split: list.splits)

lemma exprParts_not_Nil: "exprParts expr \<noteq> []"
  by (simp add: exprParts_def splitOn_not_Nil)

declare natToString.simps [simp del]
declare splitStr.simps [simp del]
declare applyLoop.simps [simp del]
declare replaceDefault.simps [simp del]
declare matchAll.simps [simp del]

lemma getStep_Undefined [simp]: "getStep h Undefined k = Undefined"
  by (simp add: getStep_def)

lemma foldl_getStep_Undefined [simp]: "foldl (getStep h) Undefined ks = Undefined"
  by (induction ks) simp_all

lemma getStep_not_object: "\<not> isObject v \<Longrightarrow> getStep h v k = Undefined"
  by (simp add: getStep_def)

lemma foldl_getStep_not_object:
  "\<not> isObject v \<Longrightarrow> ks \<noteq> [] \<Longrightarrow> foldl (getStep h) v ks = Undefined"
  by (cases ks) (simp_all add: getStep_not_object)

lemma get_not_object: "\<not> isObject v \<Longrightarrow> get h v p = Undefined"
  by (simp add: get_def foldl_getStep_not_object splitOn_not_Nil)

lemma getStep_own_key:
  "map_of kvs k = Some v \<Longrightarrow> getStep h (Data (JObj kvs)) k = Data v"
  by (simp add: getStep_def)

lemma mappingChain_foldl:
  "mappingChain D ks = Some leaf \<Longrightarrow> foldl (getStep h) (Data D) ks = Data leaf"
  by (induction D ks rule: mappingChain.induct) (auto simp: getStep_own_key split: option.splits)

lemma splitOn_append:
  "splitOn c (p @ c # q) = splitOn c p @ splitOn c q"
  by (induction p) (auto split: list.splits simp: splitOn_not_Nil)

lemma get_append: "get h v (p @ CHR ''.'' # q) = get h (get h v p) q"
  by (simp add: get_def splitOn_append)

lemma below_ten:
  "(d::nat) < 10 \<Longrightarrow> d \<in> {0, 1, 2, 3, 4, 5, 6, 7, 8, 9}"
  by auto

lemma isDigit_nth: "d < 10 \<Longrightarrow> isDigit (digitChars ! d)"
  by (drule below_ten) (auto simp: isDigit_def digitChars_def)

lemma digitValue_nth: "d < 10 \<Longrightarrow> digitValue (digitChars ! d) = d"
proof -
  assume "d < 10"
  then have "d \<in> {0,1,2,3,4,5,6,7,8,9}" by auto
  then show ?thesis by (auto simp: digitValue_def digitChars_def)
qed

lemma natToString_digits: "natToString n \<noteq> [] \<and> list_all isDigit (natToString n)"
proof (induction n rule: natToString.induct)
  case (1 n)
  show ?case
  proof (cases "n < 10")
    case True
    then show ?thesis by (subst (1 2) natToString.simps) (simp add: isDigit_nth)
  next
    case False
    with 1 show ?thesis by (subst (1 2) natToString.simps) (simp add: isDigit_nth)
  qed
qed

lemma digitsToNat_snoc: "digitsToNat (ds @ [c]) = 10 * digitsToNat ds + digitValue c"
  by (simp add: digitsToNat_def)

lemma digitsToNat_natToString: "digitsToNat (natToString n) = n"
proof (induction n rule: natToString.induct)
  case (1 n)
  show ?case
  proof (cases "n < 10")
    case True
    then show ?thesis by (subst natToString.simps) (simp add: digitsToNat_def digitValue_nth)
  next
    case False
    with 1 show ?thesis
      by (subst natToString.simps) (simp add: digitsToNat_snoc digitValue_nth)
  qed
qed

lemma digitChars_zero: "d < 10 \<Longrightarrow> digitChars ! d = CHR ''0'' \<Longrightarrow> d = 0"
proof -
  assume "d < 10" and z: "digitChars ! d = CHR ''0''"
  then have "d \<in> {0,1,2,3,4,5,6,7,8,9}" by auto
  with z show ?thesis by (auto simp: digitChars_def)
qed

lemma natToString_leading: "0 < n \<Longrightarrow> hd (natToString n) \<noteq> CHR ''0''"
proof (induction n rule: natToString.induct)
  case (1 n)
  show ?case
  proof (cases "n < 10")
    case True
    with 1(2) show ?thesis
      by (subst natToString.simps) (auto dest: digitChars_zero)
  next
    case False
    then have "0 < n div 10" by simp
    with 1(1) False have "hd (natToString (n div 10)) \<noteq> CHR ''0''" by simp
    with False show ?thesis
      using natToString_digits [of "n div 10"]
      by (subst natToString.simps) simp
  qed
qed

lemma natToString_zero: "natToString 0 = ''0''"
  by (subst natToString.simps) (simp add: digitChars_def)

lemma arrayIndex_natToString: "arrayIndex (natToString n) = Some n"
proof (cases "n = 0")
  case True
  then show ?thesis
    using natToString_digits [of 0] digitsToNat_natToString [of 0]
    by (simp add: arrayIndex_def natToString_zero)
next
  case False
  then show ?thesis
    using natToString_digits [of n] natToString_leading [of n]
    by (simp add: arrayIndex_def digitsToNat_natToString)
qed

lemma splitOn_no_sep: "c \<notin> set s \<Longrightarrow> splitOn c s = [s]"
  by (induction s) auto

lemma natToString_no_dot: "CHR ''.'' \<notin> set (natToString n)"
proof
  assume "CHR ''.'' \<in> set (natToString n)"
  moreover have "\<forall>c \<in> set (natToString n). isDigit c"
    using natToString_digits [of n] by (simp add: list_all_iff)
  ultimately have "isDigit (CHR ''.'')" by blast
  then show False by (simp add: isDigit_def digitChars_def)
qed

lemma get_array_element:
  "i < length xs \<Longrightarrow> get h (Data (JArr xs)) (natToString i) = Data (xs ! i)"
  by (simp add: get_def splitOn_no_sep natToString_no_dot getStep_def arrayIndex_natToString)

lemma arrayIndex_length: "arrayIndex ''length'' = None"
  by (simp add: arrayIndex_def isDigit_def digitChars_def)

lemma get_array_length:
  "get h (Data (JArr xs)) ''length'' = Data (JNum (int (length xs)))"
  by (simp add: get_def getStep_def arrayIndex_length)

text \<open>
  Claim C2, as amended. \<open>get\<close> returns the leaf when every segment of the path is an own
  key along a chain of mappings. It returns \<open>undefined\<close> when the value reached before
  some segment is a mapping that has no such key, provided the segment is not a property
  name inherited from \<open>Object.prototype\<close>; and when that value is \<open>null\<close>, a boolean, a
  number or a string. (An array is not such a value: \<open>get\<close> descends into it.) \<open>get\<close> is a
  total function of the model: no step of it can throw.
\<close>

theorem get_mapping_chain:
  "(mappingChain D (splitOn (CHR ''.'') P) = Some leaf \<longrightarrow> get h (Data D) P = Data leaf)
   \<and> (splitOn (CHR ''.'') P = ks @ k # rest \<and> mappingChain D ks = Some (JObj kvs)
        \<and> map_of kvs k = None \<and> k \<noteq> ''__proto__'' \<and> k \<notin> set (objectMethods h)
      \<longrightarrow> get h (Data D) P = Undefined)
   \<and> (splitOn (CHR ''.'') P = ks @ k # rest \<and> mappingChain D ks = Some v
        \<and> v \<in> {JNull, JBool b, JNum n, JStr s}
      \<longrightarrow> get h (Data D) P = Undefined)"
proof (intro conjI impI)
  assume "mappingChain D (splitOn (CHR ''.'') P) = Some leaf"
  then show "get h (Data D) P = Data leaf"
    by (simp add: get_def mappingChain_foldl)
next
  assume a: "splitOn (CHR ''.'') P = ks @ k # rest \<and> mappingChain D ks = Some (JObj kvs)
        \<and> map_of kvs k = None \<and> k \<noteq> ''__proto__'' \<and> k \<notin> set (objectMethods h)"
  then have "foldl (getStep h) (Data D) ks = Data (JObj kvs)"
    by (simp add: mappingChain_foldl)
  moreover from a have "getStep h (Data (JObj kvs)) k = Undefined"
    by (simp add: getStep_def objectChain_def)
  ultimately show "get h (Data D) P = Undefined"
    using a by (simp add: get_def)
next
  assume a: "splitOn (CHR ''.'') P = ks @ k # rest \<and> mappingChain D ks = Some v
        \<and> v \<in> {JNull, JBool b, JNum n, JStr s}"
  then have "foldl (getStep h) (Data D) ks = Data v"
    by (simp add: mappingChain_foldl)
  moreover from a have "getStep h (Data v) k = Undefined"
    by (auto simp: getStep_def)
  ultimately show "get h (Data D) P = Undefined"
    using a by (simp add: get_def)
qed

theorem get_mapping_chain_witness:
  "get testHost (Data (JObj [(''user'', JObj [(''name'', JStr ''Ann'')])])) ''user.name''
     = Data (JStr ''Ann'')
   \<and> get testHost (Data (JObj [(''user'', JObj [(''name'', JStr ''Ann'')])])) ''user.age.x''
     = Undefined
   \<and> get testHost (Data (JObj [(''user'', JObj [(''name'', JStr ''Ann'')])])) ''user.name.x''
     = Undefined"
proof -
  let ?D = "JObj [(''user'', JObj [(''name'', JStr ''Ann'')])]"
  have s1: "splitOn (CHR ''.'') ''user.name'' = [''user'', ''name'']" by simp
  have s2: "splitOn (CHR ''.'') ''user.age.x'' = [''user''] @ ''age'' # [''x'']" by simp
  have s3: "splitOn (CHR ''.'') ''user.name.x'' = [''user'', ''name''] @ ''x'' # []" by simp
  have m: "''age'' \<notin> set (objectMethods testHost)" by (simp add: testHost_def)
  have "get testHost (Data ?D) ''user.name'' = Data (JStr ''Ann'')"
    using get_mapping_chain [of ?D "''user.name''" "JStr ''Ann''" testHost] s1 by simp
  moreover have "get testHost (Data ?D) ''user.age.x'' = Undefined"
    using get_mapping_chain [of ?D "''user.age.x''" _ testHost "[''user'']" "''age''" "[''x'']"
        "[(''name'', JStr ''Ann'')]"] s2 m
    by simp
  moreover have "get testHost (Data ?D) ''user.name.x'' = Undefined"
    using get_mapping_chain [of ?D "''user.name.x''" _ testHost "[''user'', ''name'']" "''x''" "[]"
        _ "JStr ''Ann''" _ _ "''Ann''"] s3
    by simp
  ultimately show ?thesis by simp
qed

text \<open>
  Claim C2 as stated fails: the path \<open>a.length\<close> names no key of the data and passes
  through an array, and the lookup does not yield \<open>undefined\<close>.
\<close>

theorem get_missing_segment_counterexample:
  "get testHost (Data (JObj [(''a'', JArr [JStr ''x''])])) ''a.length'' = Data (JNum 1)"
  by (simp add: get_def getStep_def arrayIndex_def isDigit_def digitChars_def)

text \<open>
  Claim C3, as amended. A lookup descends only into values of type \<open>object\<close> other than
  \<open>null\<close>: into mappings and into arrays. From \<open>undefined\<close>, \<open>null\<close>, a boolean, a number,
  a string or a function every path yields \<open>undefined\<close>, at the root and after any
  prefix of the path, and nothing is thrown. An array is descended into: the decimal
  numeral of an index below its length yields that element, and \<open>length\<close> its length.
\<close>

theorem get_descends_into_objects_only:
  "get h Undefined p = Undefined
   \<and> get h (Data JNull) p = Undefined
   \<and> get h (Data (JBool b)) p = Undefined
   \<and> get h (Data (JNum n)) p = Undefined
   \<and> get h (Data (JStr s)) p = Undefined
   \<and> get h (Builtin f) p = Undefined
   \<and> (get h v p \<in> {Undefined, Data JNull, Data (JBool b), Data (JNum n), Data (JStr s), Builtin f}
      \<longrightarrow> get h v (p @ ''.'' @ q) = Undefined)
   \<and> (i < length xs \<longrightarrow> get h (Data (JArr xs)) (natToString i) = Data (xs ! i))
   \<and> get h (Data (JArr xs)) ''length'' = Data (JNum (int (length xs)))"
proof -
  have "get h v p \<in> {Undefined, Data JNull, Data (JBool b), Data (JNum n), Data (JStr s), Builtin f}
      \<Longrightarrow> get h v (p @ ''.'' @ q) = Undefined"
    using get_append [of h v p q] by (auto simp: get_not_object)
  then show ?thesis
    by (simp add: get_not_object get_array_element get_array_length del: insert_iff)
qed

theorem get_descends_into_objects_only_witness:
  "get testHost (Data (JObj [(''name'', JStr ''Ann'')])) ''name'' = Data (JStr ''Ann'')
   \<and> get testHost (Data (JObj [(''name'', JStr ''Ann'')])) ''name.length'' = Undefined
   \<and> (1::nat) < length [JNum 10, JNum 20]
   \<and> get testHost (Data (JArr [JNum 10, JNum 20])) (natToString 1) = Data (JNum 20)"
proof -
  let ?D = "Data (JObj [(''name'', JStr ''Ann'')])"
  have g: "get testHost ?D ''name'' = Data (JStr ''Ann'')"
    by (simp add: get_def getStep_def)
  have l: "(1::nat) < length [JNum 10, JNum 20]" by simp
  have "get testHost ?D (''name'' @ ''.'' @ ''length'') = Undefined"
    using get_descends_into_objects_only [of testHost "''name''" _ _ "''Ann''" _ ?D "''length''"] g
    by simp
  moreover have "get testHost (Data (JArr [JNum 10, JNum 20])) (natToString 1) = Data (JNum 20)"
    using get_descends_into_objects_only [of testHost _ _ _ _ _ _ _ 1 "[JNum 10, JNum 20]"] l
    by simp
  ultimately show ?thesis using g l by simp
qed

text \<open>
  Claim C3 as stated fails: the numeric segment \<open>0\<close> of an array with one element
  yields the element.
\<close>

theorem get_array_index_counterexample:
  "get testHost (Data (JArr [JNum 10])) ''0'' = Data (JNum 10)"
  by (simp add: get_def getStep_def arrayIndex_def isDigit_def digitChars_def digitsToNat_def
      digitValue_def)

section \<open>The modifier pipeline: properties\<close>

lemma applyLoop_shift:
  "applyLoop h (pre @ ms) (length pre + i) v = applyLoop h ms i v"
proof (induction "length ms - i" arbitrary: i v rule: less_induct)
  case less
  show ?case
  proof (cases "i < length ms")
    case False
    then show ?thesis
      unfolding applyLoop.simps [of h "pre @ ms" "length pre + i" v] applyLoop.simps [of h ms i v]
      by simp
  next
    case True
    then have m1: "length ms - (i + 1) < length ms - i" and m2: "length ms - (i + 2) < length ms - i"
      by simp_all
    have ih1: "\<And>w. applyLoop h (pre @ ms) (length pre + i + 1) w = applyLoop h ms (i + 1) w"
      using less [OF m1] by (simp add: add.assoc)
    have ih2: "\<And>w. applyLoop h (pre @ ms) (length pre + i + 2) w = applyLoop h ms (i + 2) w"
      using less [OF m2] by (simp add: add.assoc)
    have n0: "(pre @ ms) ! (length pre + i) = ms ! i"
      by (simp add: nth_append)
    have n1: "(pre @ ms) ! (length pre + i + 1) = ms ! (i + 1)"
      by (simp add: nth_append)
    have l1: "(length pre + i + 1 < length (pre @ ms)) = (i + 1 < length ms)"
      by auto
    from True show ?thesis
      unfolding applyLoop.simps [of h "pre @ ms" "length pre + i" v] applyLoop.simps [of h ms i v]
      by (simp only: ih1 ih2 n0 n1 l1) simp
  qed
qed

lemma applyModifiers_Nil: "applyModifiers h v [] = v"
  by (simp add: applyModifiers_def applyLoop.simps [of h "[]" 0 v])

lemma applyLoop_drop1: "applyLoop h (m # rest) (Suc 0) v = applyLoop h rest 0 v"
  using applyLoop_shift [of h "[m]" rest 0 v] by simp

lemma applyLoop_drop2: "applyLoop h (m # t # rest) (Suc (Suc 0)) v = applyLoop h rest 0 v"
  using applyLoop_shift [of h "[m, t]" rest 0 v] by (simp add: numeral_2_eq_2)

lemma applyModifiers_json_indent:
  "parseInt t = Some n \<Longrightarrow>
   applyModifiers h v (''json'' # t # rest) = applyModifiers h (jsonStringify v n) rest"
  by (simp add: applyModifiers_def applyLoop.simps [of h "''json'' # t # rest" 0 v]
      applyLoop_drop2)

lemma applyModifiers_json_last:
  "applyModifiers h v [''json''] = jsonStringify v 2"
  by (simp add: applyModifiers_def applyLoop.simps [of h "[''json'']" 0 v]
      applyLoop.simps [of h "[''json'']" "Suc 0"])

lemma applyModifiers_json_default:
  "parseInt t = None \<Longrightarrow>
   applyModifiers h v (''json'' # t # rest) = applyModifiers h (jsonStringify v 2) (t # rest)"
  by (simp add: applyModifiers_def applyLoop.simps [of h "''json'' # t # rest" 0 v]
      applyLoop_drop1)

lemma applyModifiers_string:
  "m \<noteq> ''json'' \<Longrightarrow>
   applyModifiers h (Data (JStr s)) (m # rest)
     = applyModifiers h (Data (JStr (stringModifier h m s))) rest"
  by (simp add: applyModifiers_def applyLoop.simps [of h "m # rest" 0 "Data (JStr s)"]
      applyLoop_drop1)

lemma applyModifiers_other:
  "m \<noteq> ''json'' \<Longrightarrow> \<forall>s. v \<noteq> Data (JStr s) \<Longrightarrow>
   applyModifiers h v (m # rest) = applyModifiers h v rest"
  by (simp add: applyModifiers_def applyLoop.simps [of h "m # rest" 0 v]
      applyLoop_drop1 split: jsval.splits json.splits)

lemma parseInt_4: "parseInt ''4'' = Some 4"
  by (simp add: parseInt_def isSpace_def isDigit_def digitChars_def digitsToNat_def digitValue_def)

lemma parseInt_lower: "parseInt ''lower'' = None"
  by (simp add: parseInt_def isSpace_def isDigit_def digitChars_def)

text \<open>
  Claim C5. In \<open>applyModifiers\<close> the token \<open>json\<close> replaces the current value by
  \<open>JSON.stringify(value, null, indent)\<close>. When the next token exists and \<open>parseInt\<close>
  reads an integer \<open>n\<close> from it, \<open>n\<close> is the indentation and the pipeline goes on
  behind that token, which is not applied as a modifier; otherwise the indentation is 2
  and the pipeline goes on with the next token. So \<open>json:4\<close> gives
  \<open>JSON.stringify(v, null, 4)\<close> and \<open>json\<close> gives \<open>JSON.stringify(v, null, 2)\<close>, whose
  text for a value of the data is the serialisation with a gap of \<open>min 10 n\<close> spaces.
  With the equations for the other tokens and for the empty list, the equations
  determine the pipeline on every modifier list.
\<close>

theorem applyModifiers_json:
  "(parseInt t = Some n \<longrightarrow>
      applyModifiers h v (''json'' # t # rest) = applyModifiers h (jsonStringify v n) rest)
   \<and> (parseInt t = None \<longrightarrow>
      applyModifiers h v (''json'' # t # rest) = applyModifiers h (jsonStringify v 2) (t # rest))
   \<and> applyModifiers h v [''json''] = jsonStringify v 2
   \<and> applyModifiers h v [''json'', ''4''] = jsonStringify v 4
   \<and> jsonStringify (Data j) n = Data (JStr (serialize (replicate (nat (min 10 n)) (CHR '' '')) [] j))
   \<and> (m \<noteq> ''json'' \<longrightarrow>
      applyModifiers h v (m # rest)
        = applyModifiers h (case v of Data (JStr s) \<Rightarrow> Data (JStr (stringModifier h m s)) | _ \<Rightarrow> v) rest)
   \<and> applyModifiers h v [] = v"
proof -
  have "m \<noteq> ''json'' \<Longrightarrow> applyModifiers h v (m # rest)
        = applyModifiers h (case v of Data (JStr s) \<Rightarrow> Data (JStr (stringModifier h m s)) | _ \<Rightarrow> v) rest"
    by (cases "\<exists>s. v = Data (JStr s)")
      (auto simp: applyModifiers_string applyModifiers_other split: jsval.splits json.splits)
  moreover have "applyModifiers h v [''json'', ''4''] = jsonStringify v 4"
    using applyModifiers_json_indent [OF parseInt_4, of h v "[]"] by (simp add: applyModifiers_Nil)
  ultimately show ?thesis
    by (simp add: applyModifiers_json_indent applyModifiers_json_default applyModifiers_json_last
        applyModifiers_Nil gapOf_def)
qed

theorem applyModifiers_json_witness:
  "parseInt ''4'' = Some 4
   \<and> applyModifiers testHost (Data (JArr [JNum 7])) [''json'', ''4'', ''upper'']
       = Data (JStr ([CHR ''['', CHR 0x0A] @ ''    7'' @ [CHR 0x0A, CHR '']'']))
   \<and> parseInt ''lower'' = None
   \<and> applyModifiers testHost (Data (JArr [JNum 7])) [''json'', ''lower'']
       = Data (JStr ([CHR ''['', CHR 0x0A] @ ''  7'' @ [CHR 0x0A, CHR '']'']))
   \<and> ''upper'' \<noteq> ''json''
   \<and> applyModifiers testHost (Data (JStr ''a-b'')) [''upper'', ''_''] = Data (JStr ''A_B'')"
proof -
  let ?v = "Data (JArr [JNum 7])"
  note inst = applyModifiers_json [where h = testHost and j = JNull]
  have "applyModifiers testHost ?v [''json'', ''4'', ''upper'']
      = applyModifiers testHost (jsonStringify ?v 4) [''upper'']"
    using inst [where t = "''4''" and n = 4 and v = ?v and rest = "[''upper'']" and m = "''x''"]
      parseInt_4 by blast
  also have "\<dots> = Data (JStr ([CHR ''['', CHR 0x0A] @ ''    7'' @ [CHR 0x0A, CHR '']'']))"
    by code_simp
  finally have a: "applyModifiers testHost ?v [''json'', ''4'', ''upper'']
      = Data (JStr ([CHR ''['', CHR 0x0A] @ ''    7'' @ [CHR 0x0A, CHR '']'']))" .
  have "applyModifiers testHost ?v [''json'', ''lower'']
      = applyModifiers testHost (jsonStringify ?v 2) [''lower'']"
    using inst [where t = "''lower''" and n = 0 and v = ?v and rest = "[]" and m = "''x''"]
      parseInt_lower by blast
  also have "\<dots> = Data (JStr ([CHR ''['', CHR 0x0A] @ ''  7'' @ [CHR 0x0A, CHR '']'']))"
    by code_simp
  finally have b: "applyModifiers testHost ?v [''json'', ''lower'']
      = Data (JStr ([CHR ''['', CHR 0x0A] @ ''  7'' @ [CHR 0x0A, CHR '']'']))" .
  have ne: "''upper'' \<noteq> ''json''" by simp
  have "applyModifiers testHost (Data (JStr ''a-b'')) [''upper'', ''_'']
      = applyModifiers testHost
          (case Data (JStr ''a-b'') of
             Data (JStr s) \<Rightarrow> Data (JStr (stringModifier testHost ''upper'' s))
           | _ \<Rightarrow> Data (JStr ''a-b'')) [''_'']"
    using inst [where t = "''4''" and n = 4 and v = "Data (JStr ''a-b'')" and rest = "[''_'']"
        and m = "''upper''"] ne by blast
  also have "\<dots> = Data (JStr ''A_B'')"
    by code_simp
  finally show ?thesis using a b parseInt_4 parseInt_lower by simp
qed

section \<open>The fallback search: properties\<close>

lemma fallbackLoop_Cons:
  "fallbackLoop h D (c # rest) =
     (if get h (Data D) (pathOf c) \<noteq> Undefined
      then applyModifiers h (get h (Data D) (pathOf c)) (modifiersOf c)
      else fallbackLoop h D rest)"
  using splitOn_not_Nil [of "CHR '':''" c]
  by (cases "splitOn (CHR '':'') c") (simp_all add: pathOf_def modifiersOf_def Let_def)

lemma fallbackLoop_skip:
  "\<forall>q \<in> set pre. get h (Data D) (pathOf q) = Undefined \<Longrightarrow>
   fallbackLoop h D (pre @ rest) = fallbackLoop h D rest"
  by (induction pre) (simp_all add: fallbackLoop_Cons del: fallbackLoop.simps)

lemma fallbackLoop_none:
  "\<forall>q \<in> set cs. get h (Data D) (pathOf q) = Undefined \<Longrightarrow> fallbackLoop h D cs = Undefined"
  using fallbackLoop_skip [of cs h D "[]"] by simp

lemma fallbackLoop_first:
  assumes "\<forall>q \<in> set pre. get h (Data D) (pathOf q) = Undefined"
    and "get h (Data D) (pathOf c) \<noteq> Undefined"
  shows "fallbackLoop h D (pre @ c # post)
    = applyModifiers h (get h (Data D) (pathOf c)) (modifiersOf c)"
  using assms by (simp add: fallbackLoop_skip fallbackLoop_Cons del: fallbackLoop.simps)

lemma applyLoop_primitive:
  "primitive j \<Longrightarrow> \<exists>j'. applyLoop h ms i (Data j) = Data j' \<and> primitive j'"
proof (induction "length ms - i" arbitrary: i j rule: less_induct)
  case less
  show ?case
  proof (cases "i < length ms")
    case False
    with less(2) show ?thesis
      unfolding applyLoop.simps [of h ms i "Data j"] by simp
  next
    case True
    then have m1: "length ms - (i + 1) < length ms - i" and m2: "length ms - (i + 2) < length ms - i"
      by simp_all
    have ih1: "\<And>k. primitive k \<Longrightarrow> \<exists>j'. applyLoop h ms (Suc i) (Data k) = Data j' \<and> primitive j'"
      using less(1) [OF m1] by simp
    have ih2: "\<And>k. primitive k \<Longrightarrow> \<exists>j'. applyLoop h ms (Suc (Suc i)) (Data k) = Data j' \<and> primitive j'"
      using less(1) [OF m2] by simp
    from True less(2) show ?thesis
      unfolding applyLoop.simps [of h ms i "Data j"]
      by (auto intro!: ih1 ih2 split: option.splits json.splits)
  qed
qed

lemma applyModifiers_primitive:
  "primitive j \<Longrightarrow> \<exists>j'. applyModifiers h (Data j) ms = Data j' \<and> primitive j'"
  by (simp add: applyModifiers_def applyLoop_primitive)

lemma stringOf_primitive: "primitive j \<Longrightarrow> \<exists>s. stringOf j = Inr s"
  by (cases j) simp_all

lemma stringOf_error: "stringOf j = Inl e \<Longrightarrow> e = TypeError"
  and stringOfElements_error: "stringOfElements xs = Inl e \<Longrightarrow> e = TypeError"
  by (induction j and xs rule: stringOf_stringOfElements.induct)
    (auto split: if_splits sum.splits)

lemma toStringJS_error: "toStringJS h v = Inl e \<Longrightarrow> e = TypeError"
  by (cases v) (auto dest: stringOf_error)

lemma stringOfElements_ok:
  "\<forall>x \<in> set xs. \<exists>s. stringOf x = Inr s \<Longrightarrow> \<exists>ps. stringOfElements xs = Inr ps"
  by (induction xs) auto

lemma stringOf_stringable: "stringable j \<Longrightarrow> \<exists>s. stringOf j = Inr s"
proof (induction j)
  case (JArr xs)
  then have "\<forall>x \<in> set xs. \<exists>s. stringOf x = Inr s"
    by (auto simp: list_all_iff)
  then obtain ps where "stringOfElements xs = Inr ps"
    using stringOfElements_ok by blast
  then show ?case by simp
qed auto

lemma resolveExpression_first:
  assumes "fallbacksOf expr = pre @ c # post"
    and "\<forall>q \<in> set pre. get h (Data D) (pathOf q) = Undefined"
    and "get h (Data D) (pathOf c) \<noteq> Undefined"
  shows "resolveExpression h expr D src
    = finishExpression h expr D src (applyModifiers h (get h (Data D) (pathOf c)) (modifiersOf c))"
  using assms by (simp add: resolveExpression_def fallbackLoop_first)

text \<open>
  Claim C1. In \<open>resolveExpression\<close> the first candidate, in order, whose path lookup is
  not \<open>undefined\<close> ends the search: the resolved value is that candidate's value after
  its modifiers, whatever the later candidates are, and the result of the expression
  is the second half of the function on that value: its string form whenever the
  modifiers left a value. A falsy value (the empty string, 0, \<open>false\<close>) counts as
  found: the result is the string form of its modified value, a string, and neither a
  later candidate nor the default is used.
\<close>

theorem first_defined_fallback_wins:
  assumes "fallbacksOf expr = pre @ c # post"
    and "\<forall>q \<in> set pre. get h (Data D) (pathOf q) = Undefined"
    and "get h (Data D) (pathOf c) \<noteq> Undefined"
  shows "fallbackLoop h D (fallbacksOf expr)
           = applyModifiers h (get h (Data D) (pathOf c)) (modifiersOf c)
    \<and> resolveExpression h expr D src
           = finishExpression h expr D src
               (applyModifiers h (get h (Data D) (pathOf c)) (modifiersOf c))
    \<and> (applyModifiers h (get h (Data D) (pathOf c)) (modifiersOf c) \<noteq> Undefined \<longrightarrow>
         resolveExpression h expr D src
           = toStringJS h (applyModifiers h (get h (Data D) (pathOf c)) (modifiersOf c)))
    \<and> (get h (Data D) (pathOf c) \<in> {Data (JStr []), Data (JNum 0), Data (JBool False)} \<longrightarrow>
         resolveExpression h expr D src
           = toStringJS h (applyModifiers h (get h (Data D) (pathOf c)) (modifiersOf c))
         \<and> (\<exists>s. resolveExpression h expr D src = Inr s))"
proof -
  let ?v = "get h (Data D) (pathOf c)"
  let ?r = "applyModifiers h ?v (modifiersOf c)"
  have loop: "fallbackLoop h D (fallbacksOf expr) = ?r"
    using assms by (simp add: fallbackLoop_first)
  have res: "resolveExpression h expr D src = finishExpression h expr D src ?r"
    using assms by (rule resolveExpression_first)
  have def: "?r \<noteq> Undefined \<Longrightarrow> resolveExpression h expr D src = toStringJS h ?r"
    using res by (simp add: finishExpression_def)
  have falsy: "resolveExpression h expr D src = toStringJS h ?r
      \<and> (\<exists>s. resolveExpression h expr D src = Inr s)"
    if "?v \<in> {Data (JStr []), Data (JNum 0), Data (JBool False)}"
  proof -
    from that obtain j where j: "?v = Data j" "primitive j" by auto
    then obtain j' where j': "?r = Data j'" "primitive j'"
      using applyModifiers_primitive [of j h "modifiersOf c"] by auto
    then have "resolveExpression h expr D src = toStringJS h ?r"
      using def by simp
    moreover obtain s where "stringOf j' = Inr s"
      using stringOf_primitive [OF j'(2)] by blast
    ultimately show ?thesis using j' by simp
  qed
  from loop res def falsy show ?thesis by blast
qed

theorem first_defined_fallback_wins_witness:
  "fallbacksOf ''a | b:upper | c'' = [''a''] @ ''b:upper'' # [''c'']
   \<and> get testHost (Data (JObj [(''b'', JStr []), (''c'', JStr ''x'')])) (pathOf ''a'') = Undefined
   \<and> get testHost (Data (JObj [(''b'', JStr []), (''c'', JStr ''x'')])) (pathOf ''b:upper'')
       = Data (JStr [])
   \<and> resolveExpression testHost ''a | b:upper | c'' (JObj [(''b'', JStr []), (''c'', JStr ''x'')]) ''f''
       = Inr []"
proof -
  let ?D = "JObj [(''b'', JStr []), (''c'', JStr ''x'')]"
  have f: "fallbacksOf ''a | b:upper | c'' = [''a''] @ ''b:upper'' # [''c'']"
    by code_simp
  have a: "get testHost (Data ?D) (pathOf ''a'') = Undefined"
    by code_simp
  have b: "get testHost (Data ?D) (pathOf ''b:upper'') = Data (JStr [])"
    by code_simp
  have r: "toStringJS testHost (applyModifiers testHost (Data (JStr [])) (modifiersOf ''b:upper''))
      = Inr []"
    by code_simp
  have skipped: "\<forall>q \<in> set [''a'']. get testHost (Data ?D) (pathOf q) = Undefined"
    using a by simp
  have found: "get testHost (Data ?D) (pathOf ''b:upper'') \<noteq> Undefined"
    using b by simp
  have "resolveExpression testHost ''a | b:upper | c'' ?D ''f''
      = toStringJS testHost
          (applyModifiers testHost (get testHost (Data ?D) (pathOf ''b:upper''))
             (modifiersOf ''b:upper''))"
    using first_defined_fallback_wins [OF f skipped found, of "''f''"] b by blast
  then have "resolveExpression testHost ''a | b:upper | c'' ?D ''f'' = Inr []"
    by (simp only: b r)
  with f a b show ?thesis by (simp only: simp_thms)
qed

section \<open>Secondary substitution: properties\<close>

lemma replaceDefault_Nil: "replaceDefault h expr D src [] = Inr []"
  by (simp add: replaceDefault.simps [of h expr D src "[]"])

lemma replaceDefault_plain:
  "c \<noteq> CHR ''@'' \<Longrightarrow>
   replaceDefault h expr D src (c # cs)
     = (case replaceDefault h expr D src cs of Inl e \<Rightarrow> Inl e | Inr out \<Rightarrow> Inr (c # out))"
  by (simp add: replaceDefault.simps [of h expr D src "c # cs"] Let_def)

lemma replaceDefault_prefix:
  "CHR ''@'' \<notin> set pre \<Longrightarrow>
   replaceDefault h expr D src (pre @ rest)
     = (case replaceDefault h expr D src rest of Inl e \<Rightarrow> Inl e | Inr out \<Rightarrow> Inr (pre @ out))"
  by (induction pre) (auto simp: replaceDefault_plain split: sum.splits)

lemma replaceDefault_no_token:
  "CHR ''@'' \<notin> set d \<Longrightarrow> replaceDefault h expr D src d = Inr d"
  using replaceDefault_prefix [of d h expr D src "[]"] by (simp add: replaceDefault_Nil)

lemma takeWhile_token:
  "CHR ''@'' \<notin> set p \<Longrightarrow> takeWhile (\<lambda>x. x \<noteq> CHR ''@'') (p @ CHR ''@'' # post) = p"
  by (induction p) auto

lemma dropWhile_token:
  "CHR ''@'' \<notin> set p \<Longrightarrow>
   dropWhile (\<lambda>x. x \<noteq> CHR ''@'') (p @ CHR ''@'' # post) = CHR ''@'' # post"
  by (induction p) auto

lemma replaceDefault_token:
  "p \<noteq> [] \<Longrightarrow> CHR ''@'' \<notin> set p \<Longrightarrow>
   replaceDefault h expr D src (CHR ''@'' # p @ CHR ''@'' # post)
     = (case innerReplace h expr D src p of
          Inl e \<Rightarrow> Inl e
        | Inr r \<Rightarrow> (case replaceDefault h expr D src post of
                      Inl e \<Rightarrow> Inl e
                    | Inr out \<Rightarrow> Inr (r @ out)))"
proof -
  assume p: "p \<noteq> []" "CHR ''@'' \<notin> set p"
  have t: "takeWhile (\<lambda>x. x \<noteq> CHR ''@'') (p @ CHR ''@'' # post) = p"
    using p by (simp add: takeWhile_token)
  have d: "dropWhile (\<lambda>x. x \<noteq> CHR ''@'') (p @ CHR ''@'' # post) = CHR ''@'' # post"
    using p by (simp add: dropWhile_token)
  show ?thesis
    by (subst replaceDefault.simps)
      (simp only: list.case Let_def t d, simp add: p split: sum.splits)
qed

lemma resolveExpression_default:
  assumes "\<forall>q \<in> set (fallbacksOf expr). get h (Data D) (pathOf q) = Undefined"
    and "defaultValueOf expr = Some d"
  shows "resolveExpression h expr D src = replaceDefault h expr D src d"
  using assms by (simp add: resolveExpression_def finishExpression_def fallbackLoop_none)

text \<open>
  Claim C6. When every candidate's lookup is \<open>undefined\<close> and the expression has a
  default text, the result is the secondary substitution of the default text alone. A
  text without \<open>@\<close> is the result as it is. At the first token \<open>@p@\<close> the path \<open>p\<close>,
  trimmed, is looked up by \<open>get\<close> (no modifiers, no fallbacks): a string or a number is
  spliced in and the substitution goes on behind the token; for any other value
  (mapping, array, \<open>null\<close>, \<open>undefined\<close>, boolean) the result is the error whose
  message names the variable, the expression and the source file.
\<close>

theorem default_secondary_substitution:
  assumes "\<forall>q \<in> set (fallbacksOf expr). get h (Data D) (pathOf q) = Undefined"
    and "defaultValueOf expr = Some d"
  shows "resolveExpression h expr D src = replaceDefault h expr D src d
    \<and> (CHR ''@'' \<notin> set d \<longrightarrow> resolveExpression h expr D src = Inr d)
    \<and> (d = pre @ ''@'' @ p @ ''@'' @ post \<and> CHR ''@'' \<notin> set pre \<and> p \<noteq> [] \<and> CHR ''@'' \<notin> set p \<longrightarrow>
        resolveExpression h expr D src =
          (case get h (Data D) (trim p) of
             Data (JStr s) \<Rightarrow>
               (case replaceDefault h expr D src post of
                  Inl e \<Rightarrow> Inl e
                | Inr out \<Rightarrow> Inr (pre @ s @ out))
           | Data (JNum n) \<Rightarrow>
               (case replaceDefault h expr D src post of
                  Inl e \<Rightarrow> Inl e
                | Inr out \<Rightarrow> Inr (pre @ numberToString n @ out))
           | _ \<Rightarrow>
               Inl (Error (''Variable '' @ [CHR 0x27] @ ''@'' @ trim p @ ''@'' @ [CHR 0x27]
                           @ '' inside default for '' @ [CHR 0x27] @ expr @ [CHR 0x27]
                           @ '' in '' @ [CHR 0x27] @ src @ [CHR 0x27]
                           @ '' must resolve to a string or number.''))))"
proof -
  have res: "resolveExpression h expr D src = replaceDefault h expr D src d"
    using assms by (rule resolveExpression_default)
  have tok: "replaceDefault h expr D src (pre @ ''@'' @ p @ ''@'' @ post) =
          (case get h (Data D) (trim p) of
             Data (JStr s) \<Rightarrow>
               (case replaceDefault h expr D src post of
                  Inl e \<Rightarrow> Inl e
                | Inr out \<Rightarrow> Inr (pre @ s @ out))
           | Data (JNum n) \<Rightarrow>
               (case replaceDefault h expr D src post of
                  Inl e \<Rightarrow> Inl e
                | Inr out \<Rightarrow> Inr (pre @ numberToString n @ out))
           | _ \<Rightarrow>
               Inl (Error (''Variable '' @ [CHR 0x27] @ ''@'' @ trim p @ ''@'' @ [CHR 0x27]
                           @ '' inside default for '' @ [CHR 0x27] @ expr @ [CHR 0x27]
                           @ '' in '' @ [CHR 0x27] @ src @ [CHR 0x27]
                           @ '' must resolve to a string or number.'')))"
    if "CHR ''@'' \<notin> set pre" "p \<noteq> []" "CHR ''@'' \<notin> set p"
    using that
    by (simp add: replaceDefault_prefix replaceDefault_token innerReplace_def innerError_def
        split: jsval.splits json.splits sum.splits)
  from res tok show ?thesis
    by (auto simp: replaceDefault_no_token simp del: append.simps append_assoc)
qed

theorem default_secondary_substitution_witness:
  "get testHost (Data (JObj [(''user'', JObj [(''name'', JStr ''Ann'')])])) (pathOf ''missing'')
     = Undefined
   \<and> defaultValueOf ''missing = Hello, @ user.name @!'' = Some ''Hello, @ user.name @!''
   \<and> resolveExpression testHost ''missing = Hello, @ user.name @!''
        (JObj [(''user'', JObj [(''name'', JStr ''Ann'')])]) ''f'' = Inr ''Hello, Ann!''"
proof -
  let ?D = "JObj [(''user'', JObj [(''name'', JStr ''Ann'')])]"
  let ?e = "''missing = Hello, @ user.name @!''"
  have f: "fallbacksOf ?e = [''missing'']" by code_simp
  have u: "get testHost (Data ?D) (pathOf ''missing'') = Undefined" by code_simp
  have d: "defaultValueOf ?e = Some ''Hello, @ user.name @!''" by code_simp
  have none: "\<forall>q \<in> set (fallbacksOf ?e). get testHost (Data ?D) (pathOf q) = Undefined"
    using f u by simp
  have shape: "''Hello, @ user.name @!'' = ''Hello, '' @ ''@'' @ '' user.name '' @ ''@'' @ ''!''
      \<and> CHR ''@'' \<notin> set ''Hello, '' \<and> '' user.name '' \<noteq> [] \<and> CHR ''@'' \<notin> set '' user.name ''"
    by simp
  have g: "get testHost (Data ?D) (trim '' user.name '') = Data (JStr ''Ann'')" by code_simp
  have r: "replaceDefault testHost ?e ?D ''f'' ''!'' = Inr ''!''" by code_simp
  have "resolveExpression testHost ?e ?D ''f'' =
      (case get testHost (Data ?D) (trim '' user.name '') of
         Data (JStr s) \<Rightarrow>
           (case replaceDefault testHost ?e ?D ''f'' ''!'' of
              Inl e \<Rightarrow> Inl e
            | Inr out \<Rightarrow> Inr (''Hello, '' @ s @ out))
       | Data (JNum n) \<Rightarrow>
           (case replaceDefault testHost ?e ?D ''f'' ''!'' of
              Inl e \<Rightarrow> Inl e
            | Inr out \<Rightarrow> Inr (''Hello, '' @ numberToString n @ out))
       | _ \<Rightarrow>
           Inl (Error (''Variable '' @ [CHR 0x27] @ ''@'' @ trim '' user.name '' @ ''@'' @ [CHR 0x27]
                       @ '' inside default for '' @ [CHR 0x27] @ ?e @ [CHR 0x27]
                       @ '' in '' @ [CHR 0x27] @ ''f'' @ [CHR 0x27]
                       @ '' must resolve to a string or number.'')))"
    using default_secondary_substitution [OF none d, of "''f''" "''Hello, ''" "'' user.name ''" "''!''"]
      shape by blast
  then have "resolveExpression testHost ?e ?D ''f'' = Inr ''Hello, Ann!''"
    by (simp only: g r jsval.case json.case sum.case) simp
  with u d show ?thesis by (simp only: simp_thms)
qed

section \<open>Errors of the resolver: properties\<close>

lemma resolveExpression_unresolved:
  assumes "defaultValueOf expr = None"
    and "\<forall>q \<in> set (fallbacksOf expr). get h (Data D) (pathOf q) = Undefined"
  shows "resolveExpression h expr D src = Inl (unresolvedError (fallbacksOf expr) src)"
  using assms by (simp add: resolveExpression_def finishExpression_def fallbackLoop_none)

lemma toStringJS_stringable:
  "v \<noteq> Undefined \<Longrightarrow> \<forall>j. v = Data j \<longrightarrow> stringable j \<Longrightarrow> \<exists>s. toStringJS h v = Inr s"
  by (cases v) (auto dest: stringOf_stringable)

text \<open>
  Claim C7, as amended. An expression without default, all of whose candidates look up
  to \<open>undefined\<close>, fails with the error that names the candidates joined by \<open>|\<close> and
  the source file. Conversely: when a candidate is found and its modifiers leave a
  value, the result is the string conversion of that value, which raises no such
  error and succeeds for every value but a mapping with an own key \<open>toString\<close> (or an
  array that holds one); and when no candidate is found, a default exists and its
  secondary substitution succeeds, the result is that text.
\<close>

theorem resolution_errors:
  "(defaultValueOf expr = None
      \<and> (\<forall>q \<in> set (fallbacksOf expr). get h (Data D) (pathOf q) = Undefined)
    \<longrightarrow> resolveExpression h expr D src
        = Inl (Error (''Variable '' @ [CHR 0x27] @ joinStr '' | '' (fallbacksOf expr) @ [CHR 0x27]
                      @ '' could not be resolved in file '' @ [CHR 0x27] @ src @ [CHR 0x27]
                      @ ''.'')))
   \<and> (fallbacksOf expr = pre @ c # post
      \<and> (\<forall>q \<in> set pre. get h (Data D) (pathOf q) = Undefined)
      \<and> get h (Data D) (pathOf c) \<noteq> Undefined
      \<and> applyModifiers h (get h (Data D) (pathOf c)) (modifiersOf c) = r
      \<and> r \<noteq> Undefined
    \<longrightarrow> resolveExpression h expr D src = toStringJS h r
        \<and> (\<forall>msg. resolveExpression h expr D src \<noteq> Inl (Error msg))
        \<and> ((\<forall>j. r = Data j \<longrightarrow> stringable j) \<longrightarrow> (\<exists>s. resolveExpression h expr D src = Inr s)))
   \<and> ((\<forall>q \<in> set (fallbacksOf expr). get h (Data D) (pathOf q) = Undefined)
      \<and> defaultValueOf expr = Some d
      \<and> replaceDefault h expr D src d = Inr s
    \<longrightarrow> resolveExpression h expr D src = Inr s)"
proof (intro conjI impI)
  assume "defaultValueOf expr = None
      \<and> (\<forall>q \<in> set (fallbacksOf expr). get h (Data D) (pathOf q) = Undefined)"
  then show "resolveExpression h expr D src
        = Inl (Error (''Variable '' @ [CHR 0x27] @ joinStr '' | '' (fallbacksOf expr) @ [CHR 0x27]
                      @ '' could not be resolved in file '' @ [CHR 0x27] @ src @ [CHR 0x27]
                      @ ''.''))"
    by (simp add: resolveExpression_unresolved unresolvedError_def)
next
  assume a: "fallbacksOf expr = pre @ c # post
      \<and> (\<forall>q \<in> set pre. get h (Data D) (pathOf q) = Undefined)
      \<and> get h (Data D) (pathOf c) \<noteq> Undefined
      \<and> applyModifiers h (get h (Data D) (pathOf c)) (modifiersOf c) = r
      \<and> r \<noteq> Undefined"
  then have "resolveExpression h expr D src = finishExpression h expr D src r"
    using resolveExpression_first [of expr pre c post h D src] by simp
  with a show res: "resolveExpression h expr D src = toStringJS h r"
    by (simp add: finishExpression_def)
  show "\<forall>msg. resolveExpression h expr D src \<noteq> Inl (Error msg)"
    using res toStringJS_error [of h r] by auto
  show "\<exists>s. resolveExpression h expr D src = Inr s" if "\<forall>j. r = Data j \<longrightarrow> stringable j"
    using res a that toStringJS_stringable [of r h] by simp
next
  assume "(\<forall>q \<in> set (fallbacksOf expr). get h (Data D) (pathOf q) = Undefined)
      \<and> defaultValueOf expr = Some d
      \<and> replaceDefault h expr D src d = Inr s"
  then show "resolveExpression h expr D src = Inr s"
    by (simp add: resolveExpression_default)
qed

theorem resolution_errors_witness:
  "defaultValueOf ''missing.path | other:upper'' = None
   \<and> get testHost (Data (JObj [(''a'', JNum 1)])) (pathOf ''missing.path'') = Undefined
   \<and> get testHost (Data (JObj [(''a'', JNum 1)])) (pathOf ''other:upper'') = Undefined
   \<and> resolveExpression testHost ''missing.path | other:upper'' (JObj [(''a'', JNum 1)])
        ''/src/strings.xml.tmpl''
       = Inl (Error (''Variable '' @ [CHR 0x27] @ ''missing.path | other:upper'' @ [CHR 0x27]
                     @ '' could not be resolved in file '' @ [CHR 0x27]
                     @ ''/src/strings.xml.tmpl'' @ [CHR 0x27] @ ''.''))
   \<and> resolveExpression testHost ''x | a'' (JObj [(''a'', JNum 1)]) ''f'' = Inr ''1''
   \<and> resolveExpression testHost ''x = none'' (JObj [(''a'', JNum 1)]) ''f'' = Inr ''none''"
proof -
  let ?D = "JObj [(''a'', JNum 1)]"
  let ?e = "''missing.path | other:upper''"
  have f: "fallbacksOf ?e = [''missing.path'', ''other:upper'']" by code_simp
  have d: "defaultValueOf ?e = None" by code_simp
  have u1: "get testHost (Data ?D) (pathOf ''missing.path'') = Undefined" by code_simp
  have u2: "get testHost (Data ?D) (pathOf ''other:upper'') = Undefined" by code_simp
  have j: "joinStr '' | '' (fallbacksOf ?e) = ?e" by (simp add: f)
  have none: "\<forall>q \<in> set (fallbacksOf ?e). get testHost (Data ?D) (pathOf q) = Undefined"
    using f u1 u2 by simp
  have "resolveExpression testHost ?e ?D ''/src/strings.xml.tmpl''
       = Inl (Error (''Variable '' @ [CHR 0x27] @ joinStr '' | '' (fallbacksOf ?e) @ [CHR 0x27]
                     @ '' could not be resolved in file '' @ [CHR 0x27]
                     @ ''/src/strings.xml.tmpl'' @ [CHR 0x27] @ ''.''))"
    using resolution_errors [of ?e testHost ?D "''/src/strings.xml.tmpl''" "[]" "''x''" "[]" Undefined
        "[]" "[]"] d none
    by blast
  then have e1: "resolveExpression testHost ?e ?D ''/src/strings.xml.tmpl''
       = Inl (Error (''Variable '' @ [CHR 0x27] @ ?e @ [CHR 0x27]
                     @ '' could not be resolved in file '' @ [CHR 0x27]
                     @ ''/src/strings.xml.tmpl'' @ [CHR 0x27] @ ''.''))"
    by (simp only: j)
  have f2: "fallbacksOf ''x | a'' = [''x''] @ ''a'' # []" by code_simp
  have x: "\<forall>q \<in> set [''x'']. get testHost (Data ?D) (pathOf q) = Undefined" by code_simp
  have a: "get testHost (Data ?D) (pathOf ''a'') \<noteq> Undefined" by code_simp
  have r: "applyModifiers testHost (get testHost (Data ?D) (pathOf ''a'')) (modifiersOf ''a'')
      = Data (JNum 1)" by code_simp
  have t: "toStringJS testHost (Data (JNum 1)) = Inr ''1''" by code_simp
  have "resolveExpression testHost ''x | a'' ?D ''f'' = toStringJS testHost (Data (JNum 1))"
    using resolution_errors [of "''x | a''" testHost ?D "''f''" "[''x'']" "''a''" "[]" "Data (JNum 1)"
        "[]" "[]"] f2 x a r
    by blast
  then have e2: "resolveExpression testHost ''x | a'' ?D ''f'' = Inr ''1''"
    by (simp only: t)
  have f3: "fallbacksOf ''x = none'' = [''x'']" by code_simp
  have d3: "defaultValueOf ''x = none'' = Some ''none''" by code_simp
  have r3: "replaceDefault testHost ''x = none'' ?D ''f'' ''none'' = Inr ''none''" by code_simp
  have none3: "\<forall>q \<in> set (fallbacksOf ''x = none''). get testHost (Data ?D) (pathOf q) = Undefined"
    using x by (simp add: f3)
  have e3: "resolveExpression testHost ''x = none'' ?D ''f'' = Inr ''none''"
    using resolution_errors [of "''x = none''" testHost ?D "''f''" "[]" "''x''" "[]" Undefined
        "''none''" "''none''"] none3 d3 r3
    by blast
  from d u1 u2 e1 e2 e3 show ?thesis by (simp only: simp_thms)
qed

text \<open>
  Claim C7 as stated fails: the candidate \<open>a\<close> resolves, to a mapping whose key
  \<open>toString\<close> hides the inherited method, and the expression still fails.
\<close>

theorem resolved_fallback_error_counterexample:
  "get testHost (Data (JObj [(''a'', JObj [(''toString'', JNum 1)])])) ''a''
     = Data (JObj [(''toString'', JNum 1)])
   \<and> resolveExpression testHost ''a'' (JObj [(''a'', JObj [(''toString'', JNum 1)])]) ''f''
     = Inl TypeError"
  by code_simp

section \<open>String coercion in the primary chain: properties\<close>

lemma applyLoop_unchanged:
  "''json'' \<notin> set ms \<Longrightarrow> \<forall>s. v \<noteq> Data (JStr s) \<Longrightarrow> applyLoop h ms i v = v"
proof (induction "length ms - i" arbitrary: i rule: less_induct)
  case less
  show ?case
  proof (cases "i < length ms")
    case False
    then show ?thesis
      unfolding applyLoop.simps [of h ms i v] by simp
  next
    case True
    then have "length ms - Suc i < length ms - i" by simp
    then have ih: "applyLoop h ms (Suc i) v = v"
      using less by simp
    from True have "ms ! i \<in> set ms"
      by simp
    with less(2) have "ms ! i \<noteq> ''json''"
      by metis
    with True less(3) ih show ?thesis
      unfolding applyLoop.simps [of h ms i v]
      by (auto split: jsval.splits json.splits)
  qed
qed

lemma applyModifiers_unchanged:
  "''json'' \<notin> set ms \<Longrightarrow> \<forall>s. v \<noteq> Data (JStr s) \<Longrightarrow> applyModifiers h v ms = v"
  by (simp add: applyModifiers_def applyLoop_unchanged)

lemma stringOfElements_nth:
  "stringOfElements xs = Inr ps \<Longrightarrow>
   length ps = length xs
   \<and> (\<forall>i < length xs. (xs ! i = JNull \<and> ps ! i = []) \<or> stringOf (xs ! i) = Inr (ps ! i))"
proof (induction xs arbitrary: ps)
  case Nil
  then show ?case by simp
next
  case (Cons x xs)
  from Cons.prems obtain q qs where ps: "ps = q # qs"
    and q: "(if x = JNull then Inr [] else stringOf x) = Inr q"
    and qs: "stringOfElements xs = Inr qs"
    by (auto split: sum.splits)
  from Cons.IH [OF qs] have len: "length qs = length xs"
    and ih: "\<forall>i < length xs. (xs ! i = JNull \<and> qs ! i = []) \<or> stringOf (xs ! i) = Inr (qs ! i)"
    by simp_all
  have "(x # xs) ! i = JNull \<and> (q # qs) ! i = [] \<or> stringOf ((x # xs) ! i) = Inr ((q # qs) ! i)"
    if "i < length (x # xs)" for i
  proof (cases i)
    case 0
    with q show ?thesis by (auto split: if_splits)
  next
    case (Suc k)
    with that ih show ?thesis by simp
  qed
  with ps len show ?case by simp
qed

text \<open>
  Claim C10, as amended. When the first candidate found in the primary chain has a
  value of the data that is no string, and \<open>json\<close> is not among its modifiers, the
  result of \<open>resolveExpression\<close> is JavaScript's default string conversion of that
  value, and never one of the resolver's own errors: \<open>null\<close> gives \<open>null\<close>; a mapping
  without an own key \<open>toString\<close> gives \<open>[object Object]\<close>; an array whose elements
  convert gives their strings, \<open>null\<close> as the empty string, joined by commas; a mapping
  with an own key \<open>toString\<close> makes the conversion throw a \<open>TypeError\<close>. The restriction
  to strings and numbers is that of the \<open>@path@\<close> tokens of a default text: there the
  same value, unless it is a number, is the error of the secondary substitution.
\<close>

theorem primary_chain_string_coercion:
  assumes "fallbacksOf expr = pre @ c # post"
    and "\<forall>q \<in> set pre. get h (Data D) (pathOf q) = Undefined"
    and "get h (Data D) (pathOf c) = Data j"
    and "''json'' \<notin> set (modifiersOf c)"
    and "\<forall>s. j \<noteq> JStr s"
  shows "resolveExpression h expr D src = stringOf j
    \<and> (\<forall>msg. resolveExpression h expr D src \<noteq> Inl (Error msg))
    \<and> (j = JNull \<longrightarrow> resolveExpression h expr D src = Inr ''null'')
    \<and> (j = JObj kvs \<and> map_of kvs ''toString'' = None \<longrightarrow>
         resolveExpression h expr D src = Inr ''[object Object]'')
    \<and> (j = JObj kvs \<and> map_of kvs ''toString'' \<noteq> None \<longrightarrow>
         resolveExpression h expr D src = Inl TypeError)
    \<and> (j = JArr xs \<and> list_all stringable xs \<longrightarrow>
         (\<exists>ps. length ps = length xs
            \<and> (\<forall>i < length xs. (xs ! i = JNull \<and> ps ! i = []) \<or> stringOf (xs ! i) = Inr (ps ! i))
            \<and> resolveExpression h expr D src = Inr (joinStr '','' ps)))
    \<and> (get h (Data D) (trim p) = Data j \<and> (\<forall>n. j \<noteq> JNum n) \<longrightarrow>
         innerReplace h expr D src p = Inl (innerError p expr src))"
proof -
  have v: "get h (Data D) (pathOf c) \<noteq> Undefined"
    using assms(3) by simp
  have "applyModifiers h (Data j) (modifiersOf c) = Data j"
    using assms(4,5) by (simp add: applyModifiers_unchanged)
  then have res: "resolveExpression h expr D src = stringOf j"
    using resolveExpression_first [OF assms(1,2) v, of src] assms(3)
    by (simp add: finishExpression_def)
  have arr: "\<exists>ps. length ps = length xs
            \<and> (\<forall>i < length xs. (xs ! i = JNull \<and> ps ! i = []) \<or> stringOf (xs ! i) = Inr (ps ! i))
            \<and> resolveExpression h expr D src = Inr (joinStr '','' ps)"
    if "j = JArr xs" "list_all stringable xs"
  proof -
    from that(2) obtain ps where ps: "stringOfElements xs = Inr ps"
      using stringOfElements_ok [of xs] stringOf_stringable by (auto simp: list_all_iff)
    with res that(1) have "resolveExpression h expr D src = Inr (joinStr '','' ps)"
      by simp
    with stringOfElements_nth [OF ps] show ?thesis by blast
  qed
  have inner: "innerReplace h expr D src p = Inl (innerError p expr src)"
    if "get h (Data D) (trim p) = Data j" "\<forall>n. j \<noteq> JNum n"
    using that assms(5) by (cases j) (simp_all add: innerReplace_def)
  have noerr: "\<forall>msg. resolveExpression h expr D src \<noteq> Inl (Error msg)"
    using res stringOf_error [of j] by auto
  from res arr inner noerr show ?thesis by auto
qed

theorem primary_chain_string_coercion_witness:
  "fallbacksOf ''x | pkg:upper'' = [''x''] @ ''pkg:upper'' # []
   \<and> get testHost (Data (JObj [(''pkg'', JArr [JNum 1, JNull, JObj [], JArr [JBool True, JStr ''s'']])]))
        (pathOf ''x'') = Undefined
   \<and> get testHost (Data (JObj [(''pkg'', JArr [JNum 1, JNull, JObj [], JArr [JBool True, JStr ''s'']])]))
        (pathOf ''pkg:upper'') = Data (JArr [JNum 1, JNull, JObj [], JArr [JBool True, JStr ''s'']])
   \<and> ''json'' \<notin> set (modifiersOf ''pkg:upper'')
   \<and> resolveExpression testHost ''x | pkg:upper''
        (JObj [(''pkg'', JArr [JNum 1, JNull, JObj [], JArr [JBool True, JStr ''s'']])]) ''f''
       = Inr ''1,,[object Object],true,s''"
proof -
  let ?j = "JArr [JNum 1, JNull, JObj [], JArr [JBool True, JStr ''s'']]"
  let ?D = "JObj [(''pkg'', ?j)]"
  have f: "fallbacksOf ''x | pkg:upper'' = [''x''] @ ''pkg:upper'' # []" by code_simp
  have x: "get testHost (Data ?D) (pathOf ''x'') = Undefined" by code_simp
  have g: "get testHost (Data ?D) (pathOf ''pkg:upper'') = Data ?j" by code_simp
  have m: "''json'' \<notin> set (modifiersOf ''pkg:upper'')" by code_simp
  have skipped: "\<forall>q \<in> set [''x'']. get testHost (Data ?D) (pathOf q) = Undefined"
    using x by simp
  have nostr: "\<forall>s. ?j \<noteq> JStr s" by simp
  have s: "stringOf ?j = Inr ''1,,[object Object],true,s''" by code_simp
  have "resolveExpression testHost ''x | pkg:upper'' ?D ''f'' = stringOf ?j"
    using primary_chain_string_coercion [OF f skipped g m nostr, of "''f''" "[]" "[]" "[]"]
    by blast
  with f x g m s show ?thesis by (simp only: simp_thms)
qed

text \<open>
  Claim C10 as stated fails: the candidate resolves to a mapping, no modifier is
  applied, and the expression fails instead of giving \<open>[object Object]\<close>.
\<close>

theorem mapping_with_toString_counterexample:
  "get testHost (Data (JObj [(''pkg'', JObj [(''toString'', JStr ''x'')])])) ''pkg''
     = Data (JObj [(''toString'', JStr ''x'')])
   \<and> resolveExpression testHost ''pkg'' (JObj [(''pkg'', JObj [(''toString'', JStr ''x'')])]) ''f''
     = Inl TypeError"
  by code_simp

section \<open>The parts of an expression: properties\<close>

text \<open>
  The fallback spec is the trimmed text before the first \<open>=\<close>, and an expression
  without \<open>=\<close> has no default.
\<close>

lemma hd_splitOn: "hd (splitOn c s) = takeWhile (\<lambda>x. x \<noteq> c) s"
  by (induction s) (auto split: list.splits simp: splitOn_not_Nil)

lemma fallback_spec_before_first_equals:
  "hd (exprParts expr) = trim (takeWhile (\<lambda>x. x \<noteq> CHR ''='') expr)"
  by (simp add: exprParts_def hd_map splitOn_not_Nil hd_splitOn)

lemma no_equals_no_default: "CHR ''='' \<notin> set expr \<Longrightarrow> defaultValueOf expr = None"
  by (simp add: defaultValueOf_def exprParts_def splitOn_no_sep)

text \<open>
  Claim C4 at the expression \<open>key = a = b\<close>: every part between \<open>=\<close> signs is trimmed
  before the parts are joined again, so the default text is \<open>a=b\<close> and not the text
  \<open>a = b\<close> that follows the first \<open>=\<close>.
\<close>

theorem default_text_inner_whitespace:
  "defaultValueOf ''key = a = b'' = Some ''a=b''
   \<and> resolveExpression testHost ''key = a = b'' (JObj []) ''f'' = Inr ''a=b''"
  by code_simp

section \<open>The tree copier: properties\<close>

lemma finalTargetPath_tmpl: "finalTargetPath (t @ ''.tmpl'') = t"
  by (simp add: finalTargetPath_def endsWith_def suffix_def)

lemma finalTargetPath_other: "\<not> endsWith target ''.tmpl'' \<Longrightarrow> finalTargetPath target = target"
  by (simp add: finalTargetPath_def)

text \<open>
  Claim C9. In \<open>copyAndSubstitute\<close> a file is processed as a template exactly when the
  source path ends in \<open>.tmpl\<close>, and the suffix \<open>.tmpl\<close> is cut off exactly when the
  target path ends in it; the two decisions are independent. A template source with a
  target that does not end in \<open>.tmpl\<close> is substituted and written to the target as
  given; a source that is no template with a target \<open>t.tmpl\<close> is copied to \<open>t\<close>.
\<close>

theorem template_and_suffix_decisions:
  "(endsWith source ''.tmpl'' \<and> \<not> endsWith target ''.tmpl'' \<longrightarrow>
      copyAndSubstitute h D source target (File content)
        = (case substituteContent h D source content of
             Inl e \<Rightarrow> ([Mkdir (dirname h target)], Some e)
           | Inr out \<Rightarrow> ([Mkdir (dirname h target), WriteFile target out], None)))
   \<and> (\<not> endsWith source ''.tmpl'' \<longrightarrow>
      copyAndSubstitute h D source (t @ ''.tmpl'') (File content)
        = ([Mkdir (dirname h t), CopyFile source t], None))
   \<and> (endsWith source ''.tmpl'' \<longrightarrow>
      copyAndSubstitute h D source (t @ ''.tmpl'') (File content)
        = (case substituteContent h D source content of
             Inl e \<Rightarrow> ([Mkdir (dirname h t)], Some e)
           | Inr out \<Rightarrow> ([Mkdir (dirname h t), WriteFile t out], None)))
   \<and> (\<not> endsWith source ''.tmpl'' \<and> \<not> endsWith target ''.tmpl'' \<longrightarrow>
      copyAndSubstitute h D source target (File content)
        = ([Mkdir (dirname h target), CopyFile source target], None))"
  by (simp add: finalTargetPath_tmpl finalTargetPath_other split: sum.splits)

theorem template_and_suffix_decisions_witness:
  "endsWith ''/repo/etc/strings.xml.tmpl'' ''.tmpl''
   \<and> \<not> endsWith ''/repo/app/src/main/res/values/strings.xml'' ''.tmpl''
   \<and> copyAndSubstitute testHost (JObj [(''app'', JObj [(''name'', JStr ''Demo'')])])
        ''/repo/etc/strings.xml.tmpl'' ''/repo/app/src/main/res/values/strings.xml''
        (File ''<string>{{ app.name }}</string>'')
       = ([Mkdir ''/repo/app/src/main/res/values'',
           WriteFile ''/repo/app/src/main/res/values/strings.xml''
             ''<string>Demo</string>''], None)
   \<and> \<not> endsWith ''/repo/etc/logo.png'' ''.tmpl''
   \<and> copyAndSubstitute testHost (JObj []) ''/repo/etc/logo.png'' (''/out/logo.png'' @ ''.tmpl'')
        (File ''{{ x }}'')
       = ([Mkdir ''/out'', CopyFile ''/repo/etc/logo.png'' ''/out/logo.png''], None)"
proof -
  let ?D = "JObj [(''app'', JObj [(''name'', JStr ''Demo'')])]"
  let ?c = "''<string>{{ app.name }}</string>''"
  have s: "endsWith ''/repo/etc/strings.xml.tmpl'' ''.tmpl''" by code_simp
  have t: "\<not> endsWith ''/repo/app/src/main/res/values/strings.xml'' ''.tmpl''" by code_simp
  have p: "\<not> endsWith ''/repo/etc/logo.png'' ''.tmpl''" by code_simp
  have sub: "substituteContent testHost ?D ''/repo/etc/strings.xml.tmpl'' ?c
      = Inr ''<string>Demo</string>''" by code_simp
  have d1: "dirname testHost ''/repo/app/src/main/res/values/strings.xml''
      = ''/repo/app/src/main/res/values''" by code_simp
  have d2: "dirname testHost ''/out/logo.png'' = ''/out''" by code_simp
  have "copyAndSubstitute testHost ?D ''/repo/etc/strings.xml.tmpl''
        ''/repo/app/src/main/res/values/strings.xml'' (File ?c)
      = (case substituteContent testHost ?D ''/repo/etc/strings.xml.tmpl'' ?c of
           Inl e \<Rightarrow> ([Mkdir (dirname testHost ''/repo/app/src/main/res/values/strings.xml'')], Some e)
         | Inr out \<Rightarrow>
             ([Mkdir (dirname testHost ''/repo/app/src/main/res/values/strings.xml''),
               WriteFile ''/repo/app/src/main/res/values/strings.xml'' out], None))"
    using template_and_suffix_decisions [of "''/repo/etc/strings.xml.tmpl''"
        "''/repo/app/src/main/res/values/strings.xml''" testHost ?D ?c "[]"] s t
    by blast
  then have a: "copyAndSubstitute testHost ?D ''/repo/etc/strings.xml.tmpl''
        ''/repo/app/src/main/res/values/strings.xml'' (File ?c)
       = ([Mkdir ''/repo/app/src/main/res/values'',
           WriteFile ''/repo/app/src/main/res/values/strings.xml''
             ''<string>Demo</string>''], None)"
    by (simp only: sub d1 sum.case)
  have "copyAndSubstitute testHost (JObj []) ''/repo/etc/logo.png'' (''/out/logo.png'' @ ''.tmpl'')
        (File ''{{ x }}'')
       = ([Mkdir (dirname testHost ''/out/logo.png''), CopyFile ''/repo/etc/logo.png'' ''/out/logo.png''],
          None)"
    using template_and_suffix_decisions [of "''/repo/etc/logo.png''" "[]" testHost "JObj []"
        "''{{ x }}''" "''/out/logo.png''"] p
    by blast
  then have b: "copyAndSubstitute testHost (JObj []) ''/repo/etc/logo.png''
        (''/out/logo.png'' @ ''.tmpl'') (File ''{{ x }}'')
       = ([Mkdir ''/out'', CopyFile ''/repo/etc/logo.png'' ''/out/logo.png''], None)"
    by (simp only: d2)
  from s t p a b show ?thesis by (simp only: simp_thms)
qed

section \<open>Template substitution: properties\<close>

subsection \<open>The pattern on well-formed pieces\<close>

lemma firstSome_cong:
  "\<forall>x \<in> set xs. f x = g x \<Longrightarrow> firstSome f xs = firstSome g xs"
  by (induction xs) (auto split: option.splits)

lemma firstSome_exists:
  "x \<in> set xs \<Longrightarrow> f x \<noteq> None \<Longrightarrow> firstSome f xs \<noteq> None"
  by (induction xs) (auto split: option.splits)

lemma not_space_brace: "\<not> isSpace (CHR ''}'')"
  by (simp add: isSpace_def)

lemma takeWhile_space_brace:
  "CHR ''}'' \<notin> set x \<Longrightarrow>
   takeWhile isSpace (x @ CHR ''}'' # rest) = takeWhile isSpace x"
  by (induction x) (auto simp: not_space_brace)

lemma takeWhile_space_le: "length (takeWhile isSpace x) \<le> length x"
  by (rule length_takeWhile_le)

lemma prefix_close:
  "CHR ''}'' \<notin> set x \<Longrightarrow> prefix ''}}'' (x @ ''}}'' @ rest) = (x = [])"
  by (cases x) auto

lemma matchClose_rest:
  assumes "CHR ''}'' \<notin> set x"
  shows "matchClose (x @ ''}}'' @ rest) = matchClose (x @ ''}}'')"
proof -
  have tw: "takeWhile isSpace (x @ ''}}'' @ rest) = takeWhile isSpace x"
    "takeWhile isSpace (x @ ''}}'') = takeWhile isSpace x"
    using assms takeWhile_space_brace [of x] by simp_all
  have "(if prefix ''}}'' (drop m (x @ ''}}'' @ rest)) then Some (m + 2) else None)
      = (if prefix ''}}'' (drop m (x @ ''}}'')) then Some (m + 2) else None)"
    if "m \<in> set (rev [0 ..< Suc (length (takeWhile isSpace x))])" for m
  proof -
    from that have "m \<le> length x"
      using takeWhile_space_le [of x] by auto
    moreover have "CHR ''}'' \<notin> set (drop m x)"
      using assms by (meson in_set_dropD)
    ultimately show ?thesis
      using prefix_close [of "drop m x" rest] prefix_close [of "drop m x" "[]"] by simp
  qed
  then show ?thesis
    unfolding matchClose_def tw by (intro firstSome_cong) blast
qed

lemma matchClose_value:
  assumes "CHR ''}'' \<notin> set x" and "matchClose (x @ ''}}'' @ rest) = Some t"
  shows "t = length x + 2"
proof -
  from assms(2) obtain m where m: "m \<in> set (rev [0 ..< Suc (length (takeWhile isSpace (x @ ''}}'' @ rest)))])"
    and p: "(if prefix ''}}'' (drop m (x @ ''}}'' @ rest)) then Some (m + 2) else None) = Some t"
    unfolding matchClose_def by (blast dest: firstSome_in)
  from m have le: "m \<le> length x"
    using assms(1) takeWhile_space_brace [of x] takeWhile_space_le [of x] by auto
  moreover have "CHR ''}'' \<notin> set (drop m x)"
    using assms(1) by (meson in_set_dropD)
  ultimately have "drop m x = []" and "t = m + 2"
    using p prefix_close [of "drop m x" rest] by (auto split: if_splits)
  with le show ?thesis by simp
qed

lemma matchClose_empty: "matchClose (''}}'' @ rest) = Some 2"
  by (simp add: matchClose_def not_space_brace)

lemma takeWhile_not_brace:
  "CHR ''}'' \<notin> set x \<Longrightarrow> takeWhile (\<lambda>c. c \<noteq> CHR ''}'') (x @ CHR ''}'' # rest) = x"
  by (induction x) auto

lemma matchGroup_rest:
  assumes "CHR ''}'' \<notin> set x"
  shows "matchGroup (x @ ''}}'' @ rest) = matchGroup (x @ ''}}'')"
proof -
  have tw: "takeWhile (\<lambda>c. c \<noteq> CHR ''}'') (x @ ''}}'' @ rest) = x"
    "takeWhile (\<lambda>c. c \<noteq> CHR ''}'') (x @ ''}}'') = x"
    using assms takeWhile_not_brace [of x] by simp_all
  have "map_option (\<lambda>t. (n, t)) (matchClose (drop n (x @ ''}}'' @ rest)))
      = map_option (\<lambda>t. (n, t)) (matchClose (drop n (x @ ''}}'')))"
    if "n \<in> set [1 ..< Suc (length x)]" for n
  proof -
    from that have "n \<le> length x" by auto
    moreover have "CHR ''}'' \<notin> set (drop n x)"
      using assms by (meson in_set_dropD)
    ultimately show ?thesis
      using matchClose_rest [of "drop n x" rest] by simp
  qed
  then show ?thesis
    unfolding matchGroup_def tw by (intro firstSome_cong) blast
qed

lemma matchGroup_value:
  assumes "CHR ''}'' \<notin> set x" and "matchGroup (x @ ''}}'' @ rest) = Some (n, t)"
  shows "n + t = length x + 2 \<and> n \<le> length x"
proof -
  have tw: "takeWhile (\<lambda>c. c \<noteq> CHR ''}'') (x @ ''}}'' @ rest) = x"
    using assms(1) takeWhile_not_brace [of x] by simp
  from assms(2) obtain n' where n': "n' \<in> set [1 ..< Suc (length x)]"
    and p: "map_option (\<lambda>t. (n', t)) (matchClose (drop n' (x @ ''}}'' @ rest))) = Some (n, t)"
    unfolding matchGroup_def tw by (blast dest: firstSome_in)
  from n' have le: "n' \<le> length x" by auto
  from p have eq: "n' = n" and mc: "matchClose (drop n (x @ ''}}'' @ rest)) = Some t"
    by auto
  have "CHR ''}'' \<notin> set (drop n x)"
    using assms(1) by (meson in_set_dropD)
  with mc le eq have "t = length (drop n x) + 2"
    using matchClose_value [of "drop n x" rest t] by simp
  with le eq show ?thesis by simp
qed

lemma matchGroup_exists:
  assumes "CHR ''}'' \<notin> set x" and "x \<noteq> []"
  shows "matchGroup (x @ ''}}'' @ rest) \<noteq> None"
proof -
  have tw: "takeWhile (\<lambda>c. c \<noteq> CHR ''}'') (x @ ''}}'' @ rest) = x"
    using assms(1) takeWhile_not_brace [of x] by simp
  have "length x \<in> set [1 ..< Suc (length x)]"
    using assms(2) by (cases x) auto
  moreover have "map_option (\<lambda>t. (length x, t)) (matchClose (drop (length x) (x @ ''}}'' @ rest))) \<noteq> None"
    using matchClose_empty [of rest] by simp
  ultimately show ?thesis
    unfolding matchGroup_def tw by (rule firstSome_exists)
qed

lemma matchHere_render:
  assumes "wellFormed (Expression e)"
  shows "matchHere (''{{'' @ e @ ''}}'' @ rest) = Some (''{{'' @ e @ ''}}'', captureOf e, rest)"
proof -
  from assms have ne: "e \<noteq> []" and nb: "CHR ''}'' \<notin> set e" by simp_all
  define inner where "inner r =
      firstSome (\<lambda>k. map_option (\<lambda>(n, t). (k, n, t)) (matchGroup (drop (2 + k) (''{{'' @ e @ ''}}'' @ r))))
        (rev [0 ..< Suc (length (takeWhile isSpace e))])" for r
  have dropk: "drop (2 + k) (''{{'' @ e @ ''}}'' @ r) = drop k e @ ''}}'' @ r"
    if "k \<le> length e" for k r
    using that by simp
  have nbk: "CHR ''}'' \<notin> set (drop k e)" for k
    using nb by (meson in_set_dropD)
  have cand: "k \<le> length e" if "k \<in> set (rev [0 ..< Suc (length (takeWhile isSpace e))])" for k
    using that takeWhile_space_le [of e] by auto
  have same: "inner r = inner []" for r
    unfolding inner_def
  proof (intro firstSome_cong ballI)
    fix k assume "k \<in> set (rev [0 ..< Suc (length (takeWhile isSpace e))])"
    then have "k \<le> length e" by (rule cand)
    then show "map_option (\<lambda>(n, t). (k, n, t)) (matchGroup (drop (2 + k) (''{{'' @ e @ ''}}'' @ r)))
        = map_option (\<lambda>(n, t). (k, n, t)) (matchGroup (drop (2 + k) (''{{'' @ e @ ''}}'' @ [])))"
      using matchGroup_rest [OF nbk, of k r] dropk [of k r] dropk [of k "[]"] by simp
  qed
  have "inner [] \<noteq> None"
    unfolding inner_def
  proof (rule firstSome_exists [of 0])
    show "0 \<in> set (rev [0 ..< Suc (length (takeWhile isSpace e))])" by simp
    show "map_option (\<lambda>(n, t). (0, n, t)) (matchGroup (drop (2 + 0) (''{{'' @ e @ ''}}'' @ []))) \<noteq> None"
      using matchGroup_exists [OF nb ne, of "[]"] by simp
  qed
  then obtain k n t where knt: "inner [] = Some (k, n, t)"
    by (cases "inner []") auto
  then obtain k' where k': "k' \<in> set (rev [0 ..< Suc (length (takeWhile isSpace e))])"
    and g: "map_option (\<lambda>(n, t). (k', n, t)) (matchGroup (drop (2 + k') (''{{'' @ e @ ''}}'' @ []))) = Some (k, n, t)"
    unfolding inner_def by (blast dest: firstSome_in)
  from g have kk: "k' = k" by auto
  from k' kk have kle: "k \<le> length e" using cand by blast
  from g kk have "matchGroup (drop k e @ ''}}'' @ []) = Some (n, t)"
    using dropk [OF kle, of "[]"] by auto
  then have nt: "n + t = length (drop k e) + 2" and nle: "n \<le> length (drop k e)"
    using matchGroup_value [OF nbk, of k "[]" n t] by simp_all
  have total: "2 + k + n + t = length (''{{'' @ e @ ''}}'')"
    using nt kle by simp
  have mh: "matchHere (''{{'' @ e @ ''}}'' @ r) = Some (''{{'' @ e @ ''}}'', take n (drop k e), r)" for r
  proof -
    have "matchHere (''{{'' @ e @ ''}}'' @ r)
        = map_option (\<lambda>(k, n, t). (take (2 + k + n + t) (''{{'' @ e @ ''}}'' @ r),
              take n (drop (2 + k) (''{{'' @ e @ ''}}'' @ r)),
              drop (2 + k + n + t) (''{{'' @ e @ ''}}'' @ r))) (inner r)"
      using takeWhile_space_brace [OF nb, of "CHR ''}'' # r"]
      by (simp add: matchHere_def inner_def)
    also have "\<dots> = Some (take (2 + k + n + t) (''{{'' @ e @ ''}}'' @ r),
              take n (drop (2 + k) (''{{'' @ e @ ''}}'' @ r)),
              drop (2 + k + n + t) (''{{'' @ e @ ''}}'' @ r))"
      by (simp add: same [of r] knt)
    also have "take (2 + k + n + t) (''{{'' @ e @ ''}}'' @ r) = ''{{'' @ e @ ''}}''"
      using total by (metis append_eq_conv_conj append.assoc)
    also have "drop (2 + k + n + t) (''{{'' @ e @ ''}}'' @ r) = r"
      using total by (metis append_eq_conv_conj append.assoc)
    also have "take n (drop (2 + k) (''{{'' @ e @ ''}}'' @ r)) = take n (drop k e)"
      using dropk [OF kle, of r] nle by simp
    finally show ?thesis .
  qed
  from mh [of "[]"] have "captureOf e = take n (drop k e)"
    by (simp add: captureOf_def)
  with mh [of rest] show ?thesis by simp
qed

lemma matchHere_plain: "c \<noteq> CHR ''{'' \<Longrightarrow> matchHere (c # s) = None"
  by (simp add: matchHere_def)

lemma matchAll_Nil: "matchAll [] = []"
  by (simp add: matchAll.simps)

lemma matchAll_plain: "CHR ''{'' \<notin> set t \<Longrightarrow> matchAll (t @ s) = matchAll s"
proof (induction t)
  case Nil
  then show ?case by simp
next
  case (Cons c t)
  then have "matchHere (c # t @ s) = None"
    by (intro matchHere_plain) auto
  with Cons show ?case
    by (subst matchAll.simps) simp
qed

lemma matchAll_expression:
  "wellFormed (Expression e) \<Longrightarrow>
   matchAll (''{{'' @ e @ ''}}'' @ s) = (''{{'' @ e @ ''}}'', captureOf e) # matchAll s"
  using matchHere_render [of e s]
  by (subst matchAll.simps) simp

lemma matchAll_pieces:
  "list_all wellFormed ps \<Longrightarrow>
   matchAll (concat (map render ps))
     = map (\<lambda>e. (''{{'' @ e @ ''}}'', captureOf e)) (expressionsOf ps)"
proof (induction ps rule: expressionsOf.induct)
  case 1
  then show ?case by (simp add: matchAll_Nil)
next
  case (2 t ps)
  then show ?case by (simp add: matchAll_plain)
next
  case (3 e ps)
  then show ?case
    using matchAll_expression [of e "concat (map render ps)"] by simp
qed

subsection \<open>Literal replacement\<close>

lemma splitStr_not_Nil: "sep \<noteq> [] \<Longrightarrow> splitStr sep s \<noteq> []"
  by (induction sep s rule: splitStr.induct) (subst splitStr.simps, auto split: list.splits)

lemma joinStr_Cons_Nil: "ps \<noteq> [] \<Longrightarrow> joinStr r ([] # ps) = r @ joinStr r ps"
  by (cases ps) simp_all

lemma joinStr_Cons_char: "joinStr r ((c # p) # ps) = c # joinStr r (p # ps)"
  by (cases ps) simp_all

lemma replace_Nil: "f \<noteq> [] \<Longrightarrow> joinStr r (splitStr f []) = []"
  by (subst splitStr.simps) simp

lemma replace_match:
  "f \<noteq> [] \<Longrightarrow> joinStr r (splitStr f (f @ s)) = r @ joinStr r (splitStr f s)"
  using splitStr_not_Nil [of f s]
  by (subst splitStr.simps) (simp add: joinStr_Cons_Nil)

lemma replace_skip:
  "f \<noteq> [] \<Longrightarrow> \<not> prefix f (c # s) \<Longrightarrow>
   joinStr r (splitStr f (c # s)) = c # joinStr r (splitStr f s)"
  using splitStr_not_Nil [of f s]
  by (subst splitStr.simps) (auto simp: joinStr_Cons_char split: list.splits)

lemma replace_plain:
  assumes "hd f = CHR ''{''" and "f \<noteq> []" and "CHR ''{'' \<notin> set t"
  shows "joinStr r (splitStr f (t @ s)) = t @ joinStr r (splitStr f s)"
  using assms(3)
proof (induction t)
  case Nil
  then show ?case by simp
next
  case (Cons c t)
  have "\<not> prefix f (c # t @ s)"
    using assms(1,2) Cons.prems by (cases f) auto
  with Cons assms(2) show ?case
    by (simp add: replace_skip)
qed

lemma prefix_closed_equal:
  "CHR ''}'' \<notin> set a \<Longrightarrow> CHR ''}'' \<notin> set b \<Longrightarrow>
   prefix (a @ CHR ''}'' # x) (b @ CHR ''}'' # y) \<Longrightarrow> a = b"
proof (induction a arbitrary: b)
  case Nil
  then show ?case by (cases b) auto
next
  case (Cons c a)
  then show ?case by (cases b) auto
qed

lemma replace_other_expression:
  assumes "wellFormed (Expression e)" and "wellFormed (Expression e')" and "e \<noteq> e'"
  shows "joinStr r (splitStr (''{{'' @ e' @ ''}}'') (''{{'' @ e @ ''}}'' @ s))
    = ''{{'' @ e @ ''}}'' @ joinStr r (splitStr (''{{'' @ e' @ ''}}'') s)"
proof -
  let ?f = "''{{'' @ e' @ ''}}''"
  have f: "?f \<noteq> []" "hd ?f = CHR ''{''" by simp_all
  have n0: "\<not> prefix ?f (CHR ''{'' # CHR ''{'' # e @ ''}}'' @ s)"
    using assms prefix_closed_equal [of e' e "''}''" "CHR ''}'' # s"] by auto
  have n1: "\<not> prefix ?f (CHR ''{'' # e @ ''}}'' @ s)"
    using assms(1) by (cases e) auto
  have plain: "CHR ''{'' \<notin> set (e @ ''}}'')"
    using assms(1) by simp
  have "joinStr r (splitStr ?f (''{{'' @ e @ ''}}'' @ s))
      = CHR ''{'' # joinStr r (splitStr ?f (CHR ''{'' # e @ ''}}'' @ s))"
    using replace_skip [OF f(1) n0] by simp
  also have "\<dots> = CHR ''{'' # CHR ''{'' # joinStr r (splitStr ?f ((e @ ''}}'') @ s))"
    using replace_skip [OF f(1) n1] by simp
  also have "\<dots> = CHR ''{'' # CHR ''{'' # (e @ ''}}'') @ joinStr r (splitStr ?f s)"
    using replace_plain [OF f(2) f(1) plain] by simp
  finally show ?thesis by simp
qed

lemma replace_pieces:
  assumes "wellFormed (Expression e)"
  shows "list_all wellFormed ps \<Longrightarrow>
    joinStr r (splitStr (''{{'' @ e @ ''}}'') (concat (map render ps)))
      = concat (map render (map (substPiece e r) ps))"
proof (induction ps)
  case Nil
  then show ?case by (simp add: replace_Nil)
next
  case (Cons p ps)
  show ?case
  proof (cases p)
    case (Text t)
    with Cons show ?thesis
      using replace_plain [of "''{{'' @ e @ ''}}''" t r "concat (map render ps)"] by simp
  next
    case (Expression e')
    show ?thesis
    proof (cases "e' = e")
      case True
      with Cons Expression show ?thesis
        using replace_match [of "''{{'' @ e @ ''}}''" r "concat (map render ps)"] by simp
    next
      case False
      with Cons Expression assms show ?thesis
        using replace_other_expression [of e' e r "concat (map render ps)"] by simp
    qed
  qed
qed

lemma resolvePiece_Nil: "map (resolvePiece rho []) ps = ps"
  by (induction ps rule: expressionsOf.induct) simp_all

lemma resolvePiece_step:
  "resolvePiece rho es (substPiece e (rho e) p) = resolvePiece rho (e # es) p"
  by (cases p) auto

lemma wellFormed_substPiece:
  "CHR ''{'' \<notin> set r \<Longrightarrow> wellFormed p \<Longrightarrow> wellFormed (substPiece e r p)"
  by (cases p) auto

lemma apply_pieces:
  "list_all wellFormed ps \<Longrightarrow>
   \<forall>e \<in> set es. wellFormed (Expression e) \<and> CHR ''{'' \<notin> set (rho e) \<Longrightarrow>
   applyReplacements (concat (map render ps)) (map (\<lambda>e. (''{{'' @ e @ ''}}'', rho e)) es)
     = concat (map render (map (resolvePiece rho es) ps))"
proof (induction es arbitrary: ps)
  case Nil
  then show ?case by (simp add: resolvePiece_Nil)
next
  case (Cons e es)
  then have wf: "wellFormed (Expression e)" and r: "CHR ''{'' \<notin> set (rho e)"
    by simp_all
  have wf': "list_all wellFormed (map (substPiece e (rho e)) ps)"
    using Cons.prems(1) r by (simp add: list_all_iff wellFormed_substPiece)
  have "applyReplacements (concat (map render ps))
          (map (\<lambda>e. (''{{'' @ e @ ''}}'', rho e)) (e # es))
      = applyReplacements (concat (map render (map (substPiece e (rho e)) ps)))
          (map (\<lambda>e. (''{{'' @ e @ ''}}'', rho e)) es)"
    using replace_pieces [OF wf Cons.prems(1), of "rho e"] by simp
  also have "\<dots> = concat (map render (map (resolvePiece rho es) (map (substPiece e (rho e)) ps)))"
    using Cons.IH [OF wf'] Cons.prems(2) by simp
  also have "map (resolvePiece rho es) (map (substPiece e (rho e)) ps)
      = map (resolvePiece rho (e # es)) ps"
    by (simp add: resolvePiece_step)
  finally show ?case .
qed

lemma resolvePiece_all:
  "map render (map (resolvePiece rho (expressionsOf ps)) ps)
     = map (\<lambda>p. case p of Text t \<Rightarrow> t | Expression e \<Rightarrow> rho e) ps"
proof -
  have "render (resolvePiece rho es p) = (case p of Text t \<Rightarrow> t | Expression e \<Rightarrow> rho e)"
    if "\<forall>e. p = Expression e \<longrightarrow> e \<in> set es" for p es
    using that by (cases p) auto
  moreover have "\<forall>e. p = Expression e \<longrightarrow> e \<in> set (expressionsOf ps)" if "p \<in> set ps" for p
    using that by (induction ps rule: expressionsOf.induct) auto
  ultimately show ?thesis by simp
qed

lemma resolveMatches_map:
  "resolveMatches h D source (map (\<lambda>e. (F e, captureOf e)) es) = Inr reps \<Longrightarrow>
   reps = map (\<lambda>e. (F e, replacementOf h D source e)) es
   \<and> (\<forall>e \<in> set es. resolveExpression h (captureOf e) D source = Inr (replacementOf h D source e))"
proof (induction es arbitrary: reps)
  case Nil
  then show ?case by simp
next
  case (Cons e es)
  from Cons.prems obtain r rs where r: "resolveExpression h (captureOf e) D source = Inr r"
    and rs: "resolveMatches h D source (map (\<lambda>e. (F e, captureOf e)) es) = Inr rs"
    and reps: "reps = (F e, r) # rs"
    by (auto split: sum.splits)
  from r have "replacementOf h D source e = r"
    by (simp add: replacementOf_def)
  with Cons.IH [OF rs] r reps show ?case by simp
qed

lemma spliceContent_Nil: "spliceContent h D source [] = Inr []"
  by (simp add: spliceContent.simps)

lemma spliceContent_plain:
  "CHR ''{'' \<notin> set t \<Longrightarrow>
   spliceContent h D source (t @ s)
     = (case spliceContent h D source s of Inl e \<Rightarrow> Inl e | Inr out \<Rightarrow> Inr (t @ out))"
proof (induction t)
  case Nil
  then show ?case by (simp split: sum.splits)
next
  case (Cons c t)
  then have "matchHere (c # t @ s) = None"
    by (intro matchHere_plain) auto
  with Cons show ?case
    by (subst spliceContent.simps) (simp split: sum.splits)
qed

lemma spliceContent_expression:
  "wellFormed (Expression e) \<Longrightarrow>
   spliceContent h D source (''{{'' @ e @ ''}}'' @ s)
     = (case resolveExpression h (captureOf e) D source of
          Inl err \<Rightarrow> Inl err
        | Inr r \<Rightarrow> (case spliceContent h D source s of Inl err \<Rightarrow> Inl err | Inr out \<Rightarrow> Inr (r @ out)))"
  using matchHere_render [of e s]
  by (subst spliceContent.simps) simp

lemma splice_pieces:
  "list_all wellFormed ps \<Longrightarrow>
   \<forall>e \<in> set (expressionsOf ps). resolveExpression h (captureOf e) D source = Inr (rho e) \<Longrightarrow>
   spliceContent h D source (concat (map render ps))
     = Inr (concat (map (\<lambda>p. case p of Text t \<Rightarrow> t | Expression e \<Rightarrow> rho e) ps))"
proof (induction ps rule: expressionsOf.induct)
  case 1
  then show ?case by (simp add: spliceContent_Nil)
next
  case (2 t ps)
  then show ?case by (simp add: spliceContent_plain)
next
  case (3 e ps)
  then show ?case
    using spliceContent_expression [of e h D source "concat (map render ps)"] by simp
qed

lemma spliceContent_error:
  "resolveMatches h D source (matchAll s) = Inl err \<Longrightarrow> spliceContent h D source s = Inl err"
proof (induction s rule: matchAll.induct)
  case (1 s)
  show ?case
  proof (cases "s = []")
    case True
    with 1(3) show ?thesis by (simp add: matchAll.simps)
  next
    case False
    show ?thesis
    proof (cases "matchHere s")
      case None
      with False 1(3) have "resolveMatches h D source (matchAll (tl s)) = Inl err"
        by (subst (asm) matchAll.simps) simp
      with 1(1) [OF False None] False None show ?thesis
        by (subst spliceContent.simps) simp
    next
      case (Some m)
      then obtain full expr rest where m: "m = (full, expr, rest)"
        by (cases m) auto
      from False Some m 1(3)
      have r: "resolveMatches h D source ((full, expr) # matchAll rest) = Inl err"
        by (subst (asm) matchAll.simps) simp
      show ?thesis
      proof (cases "resolveExpression h expr D source")
        case (Inl e)
        with r False Some m show ?thesis
          by (subst spliceContent.simps) simp
      next
        case (Inr x)
        with r have "resolveMatches h D source (matchAll rest) = Inl err"
          by (auto split: sum.splits)
        with 1(2) [OF False Some m [symmetric] refl] False Some m Inr show ?thesis
          by (subst spliceContent.simps) simp
      qed
    qed
  qed
qed

text \<open>
  Claim C8, as amended. All expressions are resolved first, from the matches of the
  pattern on the original content, and the replacements are then applied one after
  another, each replacing every exact occurrence of its matched text in the content
  as rewritten so far; the pattern is never run on resolved text. For a template made
  of well-formed pieces whose expressions all resolve to text without \<open>{\<close>, the written
  output is the original content with each match replaced by its resolved value. When
  the resolution of an expression fails, nothing is written, whatever the content.
\<close>

theorem substitution_of_plain_templates:
  "(content = concat (map render pieces) \<and> list_all wellFormed pieces
      \<and> resolveMatches h D source (matchAll content) = Inr replacements
      \<and> (\<forall>(f, r) \<in> set replacements. CHR ''{'' \<notin> set r)
    \<longrightarrow> substituteContent h D source content = spliceContent h D source content
        \<and> substituteContent h D source content
            = Inr (concat (map (\<lambda>p. case p of Text t \<Rightarrow> t
                                    | Expression e \<Rightarrow> replacementOf h D source e) pieces)))
   \<and> (resolveMatches h D source (matchAll content) = Inl err
    \<longrightarrow> substituteContent h D source content = Inl err
        \<and> spliceContent h D source content = Inl err)"
proof (intro conjI impI)
  assume a: "content = concat (map render pieces) \<and> list_all wellFormed pieces
      \<and> resolveMatches h D source (matchAll content) = Inr replacements
      \<and> (\<forall>(f, r) \<in> set replacements. CHR ''{'' \<notin> set r)"
  let ?es = "expressionsOf pieces"
  let ?rho = "replacementOf h D source"
  from a have wf: "list_all wellFormed pieces" and c: "content = concat (map render pieces)"
    by simp_all
  have m: "matchAll content = map (\<lambda>e. (''{{'' @ e @ ''}}'', captureOf e)) ?es"
    using c wf by (simp add: matchAll_pieces)
  with a have reps: "replacements = map (\<lambda>e. (''{{'' @ e @ ''}}'', ?rho e)) ?es"
    and ok: "\<forall>e \<in> set ?es. resolveExpression h (captureOf e) D source = Inr (?rho e)"
    using resolveMatches_map [of h D source "\<lambda>e. ''{{'' @ e @ ''}}''" ?es replacements]
    by simp_all
  have wfe: "wellFormed (Expression e)" if "e \<in> set ?es" for e
    using that wf by (induction pieces rule: expressionsOf.induct) auto
  have clean: "CHR ''{'' \<notin> set (?rho e)" if "e \<in> set ?es" for e
    using a that unfolding reps by auto
  have "applyReplacements content replacements
      = concat (map render (map (resolvePiece ?rho ?es) pieces))"
    unfolding c reps using wf wfe clean by (intro apply_pieces) auto
  also have "\<dots> = concat (map (\<lambda>p. case p of Text t \<Rightarrow> t | Expression e \<Rightarrow> ?rho e) pieces)"
    by (simp only: resolvePiece_all)
  finally have app: "applyReplacements content replacements
      = concat (map (\<lambda>p. case p of Text t \<Rightarrow> t | Expression e \<Rightarrow> ?rho e) pieces)" .
  from a have rm: "resolveMatches h D source (matchAll content) = Inr replacements"
    by blast
  have sub: "substituteContent h D source content
      = Inr (concat (map (\<lambda>p. case p of Text t \<Rightarrow> t | Expression e \<Rightarrow> ?rho e) pieces))"
    by (simp add: substituteContent_def rm app)
  have spl: "spliceContent h D source content
      = Inr (concat (map (\<lambda>p. case p of Text t \<Rightarrow> t | Expression e \<Rightarrow> ?rho e) pieces))"
    unfolding c using wf ok by (rule splice_pieces)
  from sub spl show "substituteContent h D source content = spliceContent h D source content"
    by simp
  from sub show "substituteContent h D source content
      = Inr (concat (map (\<lambda>p. case p of Text t \<Rightarrow> t | Expression e \<Rightarrow> ?rho e) pieces))" .
next
  assume e: "resolveMatches h D source (matchAll content) = Inl err"
  then show "substituteContent h D source content = Inl err"
    by (simp add: substituteContent_def)
  from e show "spliceContent h D source content = Inl err"
    by (rule spliceContent_error)
qed

theorem substitution_of_plain_templates_witness:
  "''<a>{{ a }}</a> {{b:upper}}{{ a }}''
     = concat (map render [Text ''<a>'', Expression '' a '', Text ''</a> '',
                           Expression ''b:upper'', Expression '' a ''])
   \<and> list_all wellFormed [Text ''<a>'', Expression '' a '', Text ''</a> '',
                           Expression ''b:upper'', Expression '' a '']
   \<and> resolveMatches testHost (JObj [(''a'', JStr ''v''), (''b'', JStr ''w'')]) ''f''
         (matchAll ''<a>{{ a }}</a> {{b:upper}}{{ a }}'')
       = Inr [(''{{ a }}'', ''v''), (''{{b:upper}}'', ''W''), (''{{ a }}'', ''v'')]
   \<and> substituteContent testHost (JObj [(''a'', JStr ''v''), (''b'', JStr ''w'')]) ''f''
         ''<a>{{ a }}</a> {{b:upper}}{{ a }}''
       = Inr ''<a>v</a> Wv''"
proof -
  let ?D = "JObj [(''a'', JStr ''v''), (''b'', JStr ''w'')]"
  let ?c = "''<a>{{ a }}</a> {{b:upper}}{{ a }}''"
  let ?ps = "[Text ''<a>'', Expression '' a '', Text ''</a> '', Expression ''b:upper'',
              Expression '' a '']"
  let ?reps = "[(''{{ a }}'', ''v''), (''{{b:upper}}'', ''W''), (''{{ a }}'', ''v'')]"
  have c: "?c = concat (map render ?ps)" by simp
  have wf: "list_all wellFormed ?ps" by simp
  have rm: "resolveMatches testHost ?D ''f'' (matchAll ?c) = Inr ?reps" by code_simp
  have clean: "\<forall>(f, r) \<in> set ?reps. CHR ''{'' \<notin> set r" by simp
  have spl: "spliceContent testHost ?D ''f'' ?c = Inr ''<a>v</a> Wv''" by code_simp
  have "substituteContent testHost ?D ''f'' ?c = spliceContent testHost ?D ''f'' ?c"
    using substitution_of_plain_templates [of ?c ?ps testHost ?D "''f''" ?reps TypeError]
      c wf rm clean
    by blast
  with spl have "substituteContent testHost ?D ''f'' ?c = Inr ''<a>v</a> Wv''"
    by simp
  with c wf rm show ?thesis by (simp only: simp_thms)
qed

text \<open>
  Claim C8 as stated fails: the resolved text of \<open>{{a}}\<close> is the matched text of the
  later expression \<open>{{b}}\<close>, and the second loop substitutes it again.
\<close>

theorem double_substitution_counterexample:
  "substituteContent testHost (JObj [(''a'', JStr ''{{b}}''), (''b'', JStr ''x'')]) ''f''
       ''{{a}} {{b}}'' = Inr ''x x''
   \<and> spliceContent testHost (JObj [(''a'', JStr ''{{b}}''), (''b'', JStr ''x'')]) ''f''
       ''{{a}} {{b}}'' = Inr ''{{b}} x''"
  by code_simp

end
